theory Spec2Isabelle
  imports Complex_Main "HOL-Library.Word" "HOL-Library.List_Lexorder" "HOL-Library.Char_ord"
begin

section \<open>Frame interface of RMS: chunks, frames and the single-slot cache\<close>

text \<open>
  A shallow embedding of \<^verbatim>\<open>RMS/Formats/FrameInterface.py\<close>. Each of the four input
  classes is a record of the attributes its methods read or write, and each method is a
  function from the old object to a Python error or the returned value with the new object.
  Attributes that no modelled method reads (paths, the configuration, fps, the
  \<^verbatim>\<open>input_type\<close> tag) are left out.

  A frame is the row-major list of its pixels; pixels are words of the depth of the source
  (\<^verbatim>\<open>uint8\<close> for video files and images, \<^verbatim>\<open>uint16\<close> for vid files).
\<close>

subsection \<open>Python errors and arithmetic\<close>

datatype py_error = ZeroDivisionError | UnboundLocalError | AttributeError | IndexError | SystemExit

text \<open>Python's \<^verbatim>\<open>a % b\<close> on integers: floor modulo, raising when \<open>b\<close> is zero.\<close>

definition py_mod :: "int \<Rightarrow> int \<Rightarrow> py_error + int" where
  "py_mod a b = (if b = 0 then Inl ZeroDivisionError else Inr (a mod b))"

text \<open>Python's \<^verbatim>\<open>xs[i]\<close>: a negative index counts from the end, an index out of range raises.\<close>

definition py_index :: "'a list \<Rightarrow> int \<Rightarrow> py_error + 'a" where
  "py_index xs i =
     (if 0 \<le> i \<and> i < int (length xs) then Inr (xs ! nat i)
      else if i < 0 \<and> - int (length xs) \<le> i then Inr (xs ! nat (int (length xs) + i))
      else Inl IndexError)"

text \<open>
  The \<^verbatim>\<open>float64\<close> arithmetic of the running average is a parameter: the conversion of
  an integer to a float, float division, float addition, and the truncation of
  \<^verbatim>\<open>astype\<close> to an integer type. Every theorem below holds for any such operations.
\<close>

record 'f float_ops =
  f_of_int :: "int \<Rightarrow> 'f"
  f_div :: "'f \<Rightarrow> 'f \<Rightarrow> 'f"
  f_add :: "'f \<Rightarrow> 'f \<Rightarrow> 'f"
  f_trunc :: "'f \<Rightarrow> int"

text \<open>
  Exact real arithmetic, with truncation towards zero. It agrees with
  \<^verbatim>\<open>float64\<close> wherever every intermediate value is a dyadic rational of few bits,
  as in the concrete evaluations below.
\<close>

definition exact_ops :: "real float_ops" where
  "exact_ops = \<lparr> f_of_int = of_int, f_div = (\<lambda>a b. a / b), f_add = (\<lambda>a b. a + b),
     f_trunc = (\<lambda>x. if 0 \<le> x then \<lfloor>x\<rfloor> else \<lceil>x\<rceil>) \<rparr>"

subsection \<open>FFMimickInterface\<close>

record 'p FFMimickInterface =
  maxpixel :: "'p list"
  avepixel :: "'p list"
  nrows :: nat
  ncols :: nat
  nframes :: int

subsection \<open>computeFramesToRead\<close>

text \<open>\<^verbatim>\<open>read_nframes\<close> is \<open>None\<close> when the argument is not given.\<close>

definition computeFramesToRead :: "int option \<Rightarrow> int \<Rightarrow> int \<Rightarrow> int \<Rightarrow> int" where
  "computeFramesToRead read_nframes total_frames fr_chunk_no current_frame_chunk =
     (if read_nframes = Some (- 1) then total_frames
      else
        let frames_to_read = (case read_nframes of None \<Rightarrow> fr_chunk_no | Some n \<Rightarrow> n)
        in if (current_frame_chunk + 1) * fr_chunk_no > total_frames
           then total_frames - current_frame_chunk * fr_chunk_no
           else frames_to_read)"

subsection \<open>The steps of the aggregation loop\<close>

text \<open>
  \<^verbatim>\<open>maxpixel = np.max([maxpixel, frame], axis=0)\<close> and
  \<^verbatim>\<open>avepixel += frame.astype(np.float64)/frames_to_read\<close>, pixel by pixel. The decode
  primitive returns frames of the geometry of the source; on such frames \<open>map2\<close> is the
  element-wise operation of numpy.
\<close>

definition max_step :: "'a::len word list \<Rightarrow> 'a word list \<Rightarrow> 'a word list" where
  "max_step maxpix frame = map2 max maxpix frame"

definition ave_step :: "'f float_ops \<Rightarrow> int \<Rightarrow> 'f list \<Rightarrow> 'a::len word list \<Rightarrow> 'f list" where
  "ave_step ops frames_to_read avepix frame =
     map2 (\<lambda>a p. f_add ops a (f_div ops (f_of_int ops (uint p)) (f_of_int ops frames_to_read)))
       avepix frame"

text \<open>\<^verbatim>\<open>avepixel.astype(np.uint8)\<close> (or \<^verbatim>\<open>np.uint16\<close>): truncate, then store in the word.\<close>

definition ave_cast :: "'f float_ops \<Rightarrow> 'f list \<Rightarrow> 'a::len word list" where
  "ave_cast ops avepix = map (\<lambda>x. word_of_int (f_trunc ops x)) avepix"

subsection \<open>InputTypeVideo\<close>

text \<open>
  \<^verbatim>\<open>cv2.VideoCapture\<close>: the decodable grayscale frames of the file and the position of
  the next frame to decode. \<^verbatim>\<open>cap.set(1, n)\<close> moves the position; \<^verbatim>\<open>cap.read()\<close>
  returns the frame at the position and advances, or \<^verbatim>\<open>None\<close> past the last frame.
\<close>

record 'p capture =
  cap_frames :: "'p list list"
  cap_pos :: nat

definition cap_set :: "'p capture \<Rightarrow> int \<Rightarrow> 'p capture" where
  "cap_set cap n = cap\<lparr>cap_pos := nat n\<rparr>"

definition cap_read :: "'p capture \<Rightarrow> 'p list option \<times> 'p capture" where
  "cap_read cap =
     (if cap_pos cap < length (cap_frames cap)
      then (Some (cap_frames cap ! cap_pos cap), cap\<lparr>cap_pos := cap_pos cap + 1\<rparr>)
      else (None, cap))"

record 'p InputTypeVideo =
  V_cap :: "'p capture"
  V_current_frame_chunk :: int
  V_total_frames :: int
  V_nrows :: nat
  V_ncols :: nat
  V_fr_chunk_no :: int
  V_total_fr_chunks :: int
  V_current_fr_chunk_size :: int
  V_current_frame :: int
  V_cache :: "int \<rightharpoonup> 'p FFMimickInterface"

text \<open>
  \<^verbatim>\<open>__init__\<close>, after the beginning time is resolved: \<open>frames\<close> is what the file decodes
  to, \<open>total_frames\<close>, \<open>rows\<close> and \<open>cols\<close> are what \<^verbatim>\<open>cap.get\<close> reports.
  \<^verbatim>\<open>cap.get\<close> returns floats: \<^verbatim>\<open>total_frames\<close> and the numbers computed from it are floats
  of integral value, on which \<^verbatim>\<open>//\<close> and \<^verbatim>\<open>%\<close> are the integer operations.
\<close>

definition init_video :: "'p list list \<Rightarrow> int \<Rightarrow> nat \<Rightarrow> nat \<Rightarrow> 'p InputTypeVideo" where
  "init_video frames total_frames rows cols =
     (let fr_chunk_no = 256;
          total_fr_chunks = total_frames div fr_chunk_no;
          total_fr_chunks = (if total_fr_chunks = 0 then 1 else total_fr_chunks)
      in \<lparr> V_cap = \<lparr>cap_frames = frames, cap_pos = 0\<rparr>,
           V_current_frame_chunk = 0,
           V_total_frames = total_frames,
           V_nrows = rows,
           V_ncols = cols,
           V_fr_chunk_no = fr_chunk_no,
           V_total_fr_chunks = total_fr_chunks,
           V_current_fr_chunk_size = fr_chunk_no,
           V_current_frame = 0,
           V_cache = Map.empty \<rparr>)"

definition nextChunk_video :: "'p InputTypeVideo \<Rightarrow> py_error + 'p InputTypeVideo" where
  "nextChunk_video s =
     (case py_mod (V_current_frame_chunk s + 1) (V_total_fr_chunks s) of
        Inl e \<Rightarrow> Inl e
      | Inr c \<Rightarrow> Inr (s\<lparr>V_current_frame_chunk := c, V_current_frame := c * V_fr_chunk_no s\<rparr>))"

definition prevChunk_video :: "'p InputTypeVideo \<Rightarrow> py_error + 'p InputTypeVideo" where
  "prevChunk_video s =
     (case py_mod (V_current_frame_chunk s - 1) (V_total_fr_chunks s) of
        Inl e \<Rightarrow> Inl e
      | Inr c \<Rightarrow> Inr (s\<lparr>V_current_frame_chunk := c, V_current_frame := c * V_fr_chunk_no s\<rparr>))"

definition nextFrame_video :: "'p InputTypeVideo \<Rightarrow> py_error + 'p InputTypeVideo" where
  "nextFrame_video s =
     (case py_mod (V_current_frame s + 1) (V_total_frames s) of
        Inl e \<Rightarrow> Inl e
      | Inr f \<Rightarrow> Inr (s\<lparr>V_current_frame := f\<rparr>))"

definition prevFrame_video :: "'p InputTypeVideo \<Rightarrow> py_error + 'p InputTypeVideo" where
  "prevFrame_video s =
     (case py_mod (V_current_frame s - 1) (V_total_frames s) of
        Inl e \<Rightarrow> Inl e
      | Inr f \<Rightarrow> Inr (s\<lparr>V_current_frame := f\<rparr>))"

text \<open>
  \<^verbatim>\<open>for i in range(frames_to_read)\<close> of \<^verbatim>\<open>loadChunk\<close>: \<open>k\<close> iterations are left, \<open>i\<close>
  is the value the next iteration binds, and the last component is the loop variable as
  Python leaves it: unbound (\<open>None\<close>) as long as no iteration has begun.
\<close>

fun video_loop :: "'f float_ops \<Rightarrow> int \<Rightarrow> nat \<Rightarrow> int \<Rightarrow> 'a::len word capture \<Rightarrow>
    'a word list \<Rightarrow> 'f list \<Rightarrow> int option \<Rightarrow>
    'a word capture \<times> 'a word list \<times> 'f list \<times> int option" where
  "video_loop ops frames_to_read 0 i cap maxpix avepix last_i = (cap, maxpix, avepix, last_i)"
| "video_loop ops frames_to_read (Suc k) i cap maxpix avepix last_i =
     (case cap_read cap of
        (None, cap') \<Rightarrow> (cap', maxpix, avepix, Some i)
      | (Some frame, cap') \<Rightarrow>
          video_loop ops frames_to_read k (i + 1) cap'
            (max_step maxpix frame) (ave_step ops frames_to_read avepix frame) (Some i))"

definition loadChunk_video :: "'f float_ops \<Rightarrow> int option \<Rightarrow> 'a::len word InputTypeVideo \<Rightarrow>
    py_error + ('a word FFMimickInterface \<times> 'a word InputTypeVideo)" where
  "loadChunk_video ops read_nframes s =
     (case (if read_nframes = Some (- 1) then V_cache s (- 1)
            else V_cache s (V_current_frame_chunk s)) of
        Some ff \<Rightarrow> Inr (ff, s)
      | None \<Rightarrow>
          let cap0 = (if read_nframes = Some (- 1) then cap_set (V_cap s) 0
                      else cap_set (V_cap s) (V_current_frame_chunk s * V_fr_chunk_no s));
              frames_to_read = computeFramesToRead read_nframes (V_total_frames s)
                                 (V_fr_chunk_no s) (V_current_frame_chunk s);
              maxpix0 = replicate (V_nrows s * V_ncols s) 0;
              avepix0 = replicate (V_nrows s * V_ncols s) (f_of_int ops 0)
          in case video_loop ops frames_to_read (nat frames_to_read) 0 cap0 maxpix0 avepix0 None of
               (cap1, maxpix, avepix, last_i) \<Rightarrow>
                 (case last_i of
                    None \<Rightarrow> Inl UnboundLocalError
                  | Some i \<Rightarrow>
                      let ff_struct_fake = \<lparr> maxpixel = maxpix, avepixel = ave_cast ops avepix,
                                             nrows = V_nrows s, ncols = V_ncols s,
                                             nframes = V_total_frames s \<rparr>;
                          cache_id = (if read_nframes = Some (- 1) then - 1
                                      else V_current_frame_chunk s)
                      in Inr (ff_struct_fake,
                              s\<lparr>V_cap := cap1, V_current_fr_chunk_size := i + 1,
                                V_cache := Map.empty(cache_id \<mapsto> ff_struct_fake)\<rparr>)))"

subsection \<open>InputTypeFF\<close>

text \<open>
  \<^verbatim>\<open>readFF\<close> and \<^verbatim>\<open>filenameToDatetime\<close> belong to other modules and are parameters:
  \<open>readFF\<close> maps a file name of the directory to the FF structure stored in it (a structure
  with the attributes of \<open>FFMimickInterface\<close>). The attribute \<^verbatim>\<open>ff\<close> does not exist
  before the first \<^verbatim>\<open>loadChunk\<close> (\<open>None\<close>).
\<close>

record ('p, 't) InputTypeFF =
  F_ff_list :: "string list"
  F_current_ff_index :: int
  F_current_ff_file :: string
  F_beginning_datetime :: 't
  F_current_frame :: int
  F_cache :: "string \<rightharpoonup> 'p FFMimickInterface"
  F_ff :: "'p FFMimickInterface option"

definition nextChunk_ff :: "(string \<Rightarrow> 't) \<Rightarrow> ('p, 't) InputTypeFF \<Rightarrow> py_error + ('p, 't) InputTypeFF" where
  "nextChunk_ff filenameToDatetime s =
     (case py_mod (F_current_ff_index s + 1) (int (length (F_ff_list s))) of
        Inl e \<Rightarrow> Inl e
      | Inr i \<Rightarrow>
          (case py_index (F_ff_list s) i of
             Inl e \<Rightarrow> Inl e
           | Inr file \<Rightarrow>
               Inr (s\<lparr>F_current_ff_index := i, F_current_ff_file := file,
                      F_beginning_datetime := filenameToDatetime file\<rparr>)))"

definition prevChunk_ff :: "(string \<Rightarrow> 't) \<Rightarrow> ('p, 't) InputTypeFF \<Rightarrow> py_error + ('p, 't) InputTypeFF" where
  "prevChunk_ff filenameToDatetime s =
     (case py_mod (F_current_ff_index s - 1) (int (length (F_ff_list s))) of
        Inl e \<Rightarrow> Inl e
      | Inr i \<Rightarrow>
          (case py_index (F_ff_list s) i of
             Inl e \<Rightarrow> Inl e
           | Inr file \<Rightarrow>
               Inr (s\<lparr>F_current_ff_index := i, F_current_ff_file := file,
                      F_beginning_datetime := filenameToDatetime file\<rparr>)))"

text \<open>\<^verbatim>\<open>read_nframes\<close> does nothing here.\<close>

definition loadChunk_ff :: "(string \<Rightarrow> 'p FFMimickInterface) \<Rightarrow> int option \<Rightarrow>
    ('p, 't) InputTypeFF \<Rightarrow> py_error + ('p FFMimickInterface \<times> ('p, 't) InputTypeFF)" where
  "loadChunk_ff readFF read_nframes s =
     (case F_cache s (F_current_ff_file s) of
        Some ff \<Rightarrow> Inr (ff, s)
      | None \<Rightarrow>
          let ff = readFF (F_current_ff_file s)
          in Inr (ff, s\<lparr>F_ff := Some ff, F_current_frame := 0,
                        F_cache := Map.empty(F_current_ff_file s \<mapsto> ff)\<rparr>))"

definition nextFrame_ff :: "('p, 't) InputTypeFF \<Rightarrow> py_error + ('p, 't) InputTypeFF" where
  "nextFrame_ff s =
     (case F_ff s of
        None \<Rightarrow> Inl AttributeError
      | Some ff \<Rightarrow>
          (case py_mod (F_current_frame s + 1) (nframes ff) of
             Inl e \<Rightarrow> Inl e
           | Inr f \<Rightarrow> Inr (s\<lparr>F_current_frame := f\<rparr>)))"

definition prevFrame_ff :: "('p, 't) InputTypeFF \<Rightarrow> py_error + ('p, 't) InputTypeFF" where
  "prevFrame_ff s =
     (case F_ff s of
        None \<Rightarrow> Inl AttributeError
      | Some ff \<Rightarrow>
          (case py_mod (F_current_frame s - 1) (nframes ff) of
             Inl e \<Rightarrow> Inl e
           | Inr f \<Rightarrow> Inr (s\<lparr>F_current_frame := f\<rparr>)))"

text \<open>
  \<^verbatim>\<open>__init__\<close>: \<open>names\<close> are the file names of the directory that \<^verbatim>\<open>validFFName\<close>
  accepts (or the one given file); without any the constructor exits.
\<close>

definition init_ff :: "(string \<Rightarrow> 'p FFMimickInterface) \<Rightarrow> (string \<Rightarrow> 't) \<Rightarrow> string list \<Rightarrow>
    py_error + ('p, 't) InputTypeFF" where
  "init_ff readFF filenameToDatetime names =
     (if names = [] then Inl SystemExit
      else
        let ff_list = sort names;
            current_ff_file = ff_list ! 0;
            s = \<lparr> F_ff_list = ff_list, F_current_ff_index = 0,
                  F_current_ff_file = current_ff_file,
                  F_beginning_datetime = filenameToDatetime current_ff_file,
                  F_current_frame = 0, F_cache = Map.empty, F_ff = None \<rparr>
        in (case loadChunk_ff readFF None s of
              Inl e \<Rightarrow> Inl e
            | Inr (ff, s') \<Rightarrow> Inr s'))"

subsection \<open>InputTypeUWOVid\<close>

text \<open>
  Modelled from the spec: \<^verbatim>\<open>readVidFrame\<close> of \<^verbatim>\<open>RMS.Formats.Vid\<close>, the decode
  primitive of vid files, which is not part of this module. It returns the frame at the
  file position and advances the position by one record, or the end-of-stream sentinel
  (\<open>None\<close>, the value \<^verbatim>\<open>loadChunk\<close> tests for) past the last record. The time of a record
  (\<^verbatim>\<open>vid.ts + vid.tu/1000000.0\<close>) comes with its frame. The file position counts records:
  \<^verbatim>\<open>seek(n*seqlen)\<close> is \<open>vid_seek n\<close>.
\<close>

record ('p, 't) vid_file =
  vid_records :: "('p list \<times> 't) list"
  vid_pos :: nat

definition vid_seek :: "('p, 't) vid_file \<Rightarrow> int \<Rightarrow> ('p, 't) vid_file" where
  "vid_seek vf n = vf\<lparr>vid_pos := nat n\<rparr>"

definition readVidFrame :: "('p, 't) vid_file \<Rightarrow> ('p list \<times> 't) option \<times> ('p, 't) vid_file" where
  "readVidFrame vf =
     (if vid_pos vf < length (vid_records vf)
      then (Some (vid_records vf ! vid_pos vf), vf\<lparr>vid_pos := vid_pos vf + 1\<rparr>)
      else (None, vf))"

record ('p, 't) InputTypeUWOVid =
  U_vid_file :: "('p, 't) vid_file"
  U_current_frame_chunk :: int
  U_current_frame :: int
  U_current_fr_chunk_size :: int
  U_total_frames :: int
  U_nrows :: nat
  U_ncols :: nat
  U_fr_chunk_no :: int
  U_total_fr_chunks :: int
  U_frame_chunk_unix_times :: "'t list"
  U_cache :: "int \<rightharpoonup> ('p FFMimickInterface \<times> 't list)"

definition nextChunk_uwovid :: "('p, 't) InputTypeUWOVid \<Rightarrow> py_error + ('p, 't) InputTypeUWOVid" where
  "nextChunk_uwovid s =
     (case py_mod (U_current_frame_chunk s + 1) (U_total_fr_chunks s) of
        Inl e \<Rightarrow> Inl e
      | Inr c \<Rightarrow> Inr (s\<lparr>U_current_frame_chunk := c, U_current_frame := c * U_fr_chunk_no s\<rparr>))"

definition prevChunk_uwovid :: "('p, 't) InputTypeUWOVid \<Rightarrow> py_error + ('p, 't) InputTypeUWOVid" where
  "prevChunk_uwovid s =
     (case py_mod (U_current_frame_chunk s - 1) (U_total_fr_chunks s) of
        Inl e \<Rightarrow> Inl e
      | Inr c \<Rightarrow> Inr (s\<lparr>U_current_frame_chunk := c, U_current_frame := c * U_fr_chunk_no s\<rparr>))"

definition nextFrame_uwovid :: "('p, 't) InputTypeUWOVid \<Rightarrow> py_error + ('p, 't) InputTypeUWOVid" where
  "nextFrame_uwovid s =
     (case py_mod (U_current_frame s + 1) (U_total_frames s) of
        Inl e \<Rightarrow> Inl e
      | Inr f \<Rightarrow> Inr (s\<lparr>U_current_frame := f\<rparr>))"

definition prevFrame_uwovid :: "('p, 't) InputTypeUWOVid \<Rightarrow> py_error + ('p, 't) InputTypeUWOVid" where
  "prevFrame_uwovid s =
     (case py_mod (U_current_frame s - 1) (U_total_frames s) of
        Inl e \<Rightarrow> Inl e
      | Inr f \<Rightarrow> Inr (s\<lparr>U_current_frame := f\<rparr>))"

text \<open>
  The loop of \<^verbatim>\<open>loadChunk\<close>. The result of \<^verbatim>\<open>readVidFrame\<close> is converted with
  \<^verbatim>\<open>.astype(np.uint16)\<close> before it is tested for \<^verbatim>\<open>None\<close>: on the sentinel the
  attribute lookup raises, and the \<^verbatim>\<open>break\<close> after it is never reached.
\<close>

fun uwovid_loop :: "'f float_ops \<Rightarrow> int \<Rightarrow> nat \<Rightarrow> int \<Rightarrow> ('a::len word, 't) vid_file \<Rightarrow>
    'a word list \<Rightarrow> 'f list \<Rightarrow> 't list \<Rightarrow> int option \<Rightarrow>
    py_error + (('a word, 't) vid_file \<times> 'a word list \<times> 'f list \<times> 't list \<times> int option)" where
  "uwovid_loop ops frames_to_read 0 i vf maxpix avepix utimes last_i =
     Inr (vf, maxpix, avepix, utimes, last_i)"
| "uwovid_loop ops frames_to_read (Suc k) i vf maxpix avepix utimes last_i =
     (case readVidFrame vf of
        (None, vf') \<Rightarrow> Inl AttributeError
      | (Some (frame, t), vf') \<Rightarrow>
          uwovid_loop ops frames_to_read k (i + 1) vf'
            (max_step maxpix frame) (ave_step ops frames_to_read avepix frame)
            (utimes @ [t]) (Some i))"

text \<open>
  What \<^verbatim>\<open>loadChunk\<close> returns: the structure, or (from the cache, for the key \<open>-1\<close>)
  the cached list of the structure and the times of its frames.
\<close>

datatype ('p, 't) uwovid_result =
  Struct "'p FFMimickInterface"
| CacheList "'p FFMimickInterface" "'t list"

definition loadChunk_uwovid :: "'f float_ops \<Rightarrow> int option \<Rightarrow> ('a::len word, 't) InputTypeUWOVid \<Rightarrow>
    py_error + (('a word, 't) uwovid_result \<times> ('a word, 't) InputTypeUWOVid)" where
  "loadChunk_uwovid ops read_nframes s =
     (case (if read_nframes = Some (- 1)
            then map_option (\<lambda>(ff, uts). (CacheList ff uts, s)) (U_cache s (- 1))
            else map_option (\<lambda>(ff, uts). (Struct ff, s\<lparr>U_frame_chunk_unix_times := uts\<rparr>))
                   (U_cache s (U_current_frame_chunk s))) of
        Some r \<Rightarrow> Inr r
      | None \<Rightarrow>
          let vf0 = (if read_nframes = Some (- 1) then vid_seek (U_vid_file s) 0
                     else vid_seek (U_vid_file s) (U_current_frame_chunk s * U_fr_chunk_no s));
              frames_to_read = computeFramesToRead read_nframes (U_total_frames s)
                                 (U_fr_chunk_no s) (U_current_frame_chunk s);
              maxpix0 = replicate (U_nrows s * U_ncols s) 0;
              avepix0 = replicate (U_nrows s * U_ncols s) (f_of_int ops 0)
          in case uwovid_loop ops frames_to_read (nat frames_to_read) 0 vf0 maxpix0 avepix0 [] None of
               Inl e \<Rightarrow> Inl e
             | Inr (vf1, maxpix, avepix, utimes, last_i) \<Rightarrow>
                 (case last_i of
                    None \<Rightarrow> Inl UnboundLocalError
                  | Some i \<Rightarrow>
                      let ff_struct_fake = \<lparr> maxpixel = maxpix, avepixel = ave_cast ops avepix,
                                             nrows = U_nrows s, ncols = U_ncols s,
                                             nframes = U_total_frames s \<rparr>;
                          cache_id = (if read_nframes = Some (- 1) then - 1
                                      else U_current_frame_chunk s)
                      in Inr (Struct ff_struct_fake,
                              s\<lparr>U_vid_file := vf1, U_frame_chunk_unix_times := utimes,
                                U_current_fr_chunk_size := i + 1,
                                U_cache := Map.empty(cache_id \<mapsto> (ff_struct_fake, utimes))\<rparr>)))"

text \<open>
  \<^verbatim>\<open>__init__\<close>: \<open>records\<close> is the content of the file, \<open>total_frames\<close> its size divided
  by the length of a record, \<open>rows\<close> and \<open>cols\<close> the geometry in the header of the first
  record. After the first load the constructor estimates the fps as
  \<^verbatim>\<open>1/((times[-1] - times[0])/current_fr_chunk_size)\<close>: the value is not kept here, but
  the division by zero it raises when the first and the last time of the chunk are equal
  is.
\<close>

definition init_uwovid :: "'f float_ops \<Rightarrow> ('a::len word list \<times> 't) list \<Rightarrow> int \<Rightarrow> nat \<Rightarrow> nat \<Rightarrow>
    py_error + ('a word, 't) InputTypeUWOVid" where
  "init_uwovid ops records total_frames rows cols =
     (let fr_chunk_no = 128;
          total_fr_chunks = total_frames div fr_chunk_no;
          total_fr_chunks = (if total_fr_chunks = 0 then 1 else total_fr_chunks);
          s = \<lparr> U_vid_file = \<lparr>vid_records = records, vid_pos = 0\<rparr>,
                U_current_frame_chunk = 0,
                U_current_frame = 0,
                U_current_fr_chunk_size = 0,
                U_total_frames = total_frames,
                U_nrows = rows,
                U_ncols = cols,
                U_fr_chunk_no = fr_chunk_no,
                U_total_fr_chunks = total_fr_chunks,
                U_frame_chunk_unix_times = [],
                U_cache = Map.empty \<rparr>
      in (case loadChunk_uwovid ops None s of
            Inl e \<Rightarrow> Inl e
          | Inr (r, s') \<Rightarrow>
              (case U_frame_chunk_unix_times s' of
                 [] \<Rightarrow> Inl IndexError
               | t0 # _ \<Rightarrow>
                   if last (U_frame_chunk_unix_times s') = t0 then Inl ZeroDivisionError
                   else Inr s')))"

subsection \<open>InputTypeImages\<close>

text \<open>
  \<open>imread\<close> is the decode primitive: the grayscale pixels of the image file of the given
  name (\<^verbatim>\<open>cv2.imread\<close> followed by \<^verbatim>\<open>cv2.cvtColor\<close>).
\<close>

record 'p InputTypeImages =
  I_img_list :: "string list"
  I_current_frame_chunk :: int
  I_total_frames :: int
  I_current_frame :: int
  I_current_img_file :: string
  I_nrows :: nat
  I_ncols :: nat
  I_fr_chunk_no :: int
  I_current_fr_chunk_size :: int
  I_total_fr_chunks :: int
  I_cache :: "int \<rightharpoonup> 'p FFMimickInterface"

definition loadFrame_images :: "(string \<Rightarrow> 'p list) \<Rightarrow> int option \<Rightarrow> 'p InputTypeImages \<Rightarrow>
    py_error + 'p list" where
  "loadFrame_images imread fr_no s =
     (case fr_no of
        Some n \<Rightarrow>
          (case py_index (I_img_list s) n of
             Inl e \<Rightarrow> Inl e
           | Inr current_img_file \<Rightarrow> Inr (imread current_img_file))
      | None \<Rightarrow> Inr (imread (I_current_img_file s)))"

definition nextChunk_images :: "'p InputTypeImages \<Rightarrow> py_error + 'p InputTypeImages" where
  "nextChunk_images s =
     (case py_mod (I_current_frame_chunk s + 1) (I_total_fr_chunks s) of
        Inl e \<Rightarrow> Inl e
      | Inr c \<Rightarrow> Inr (s\<lparr>I_current_frame_chunk := c, I_current_frame := c * I_fr_chunk_no s\<rparr>))"

definition prevChunk_images :: "'p InputTypeImages \<Rightarrow> py_error + 'p InputTypeImages" where
  "prevChunk_images s =
     (case py_mod (I_current_frame_chunk s - 1) (I_total_fr_chunks s) of
        Inl e \<Rightarrow> Inl e
      | Inr c \<Rightarrow> Inr (s\<lparr>I_current_frame_chunk := c, I_current_frame := c * I_fr_chunk_no s\<rparr>))"

definition nextFrame_images :: "'p InputTypeImages \<Rightarrow> py_error + 'p InputTypeImages" where
  "nextFrame_images s =
     (case py_mod (I_current_frame s + 1) (I_total_frames s) of
        Inl e \<Rightarrow> Inl e
      | Inr f \<Rightarrow>
          (case py_index (I_img_list s) f of
             Inl e \<Rightarrow> Inl e
           | Inr file \<Rightarrow> Inr (s\<lparr>I_current_frame := f, I_current_img_file := file\<rparr>)))"

definition prevFrame_images :: "'p InputTypeImages \<Rightarrow> py_error + 'p InputTypeImages" where
  "prevFrame_images s =
     (case py_mod (I_current_frame s - 1) (I_total_frames s) of
        Inl e \<Rightarrow> Inl e
      | Inr f \<Rightarrow>
          (case py_index (I_img_list s) f of
             Inl e \<Rightarrow> Inl e
           | Inr file \<Rightarrow> Inr (s\<lparr>I_current_frame := f, I_current_img_file := file\<rparr>)))"

text \<open>
  The loop of \<^verbatim>\<open>loadChunk\<close>: it stops at the image index \<^verbatim>\<open>total_frames - 1\<close>, before
  that image is loaded.
\<close>

fun images_loop :: "(string \<Rightarrow> 'a::len word list) \<Rightarrow> 'f float_ops \<Rightarrow> 'a word InputTypeImages \<Rightarrow>
    int \<Rightarrow> int \<Rightarrow> nat \<Rightarrow> int \<Rightarrow> 'a word list \<Rightarrow> 'f list \<Rightarrow> int option \<Rightarrow>
    py_error + ('a word list \<times> 'f list \<times> int option)" where
  "images_loop imread ops s first_img_indx frames_to_read 0 i maxpix avepix last_i =
     Inr (maxpix, avepix, last_i)"
| "images_loop imread ops s first_img_indx frames_to_read (Suc k) i maxpix avepix last_i =
     (let img_indx = first_img_indx + i
      in if img_indx \<ge> I_total_frames s - 1 then Inr (maxpix, avepix, Some i)
         else
           (case loadFrame_images imread (Some img_indx) s of
              Inl e \<Rightarrow> Inl e
            | Inr frame \<Rightarrow>
                images_loop imread ops s first_img_indx frames_to_read k (i + 1)
                  (max_step maxpix frame) (ave_step ops frames_to_read avepix frame) (Some i)))"

definition loadChunk_images :: "(string \<Rightarrow> 'a::len word list) \<Rightarrow> 'f float_ops \<Rightarrow> int option \<Rightarrow>
    'a word InputTypeImages \<Rightarrow> py_error + ('a word FFMimickInterface \<times> 'a word InputTypeImages)" where
  "loadChunk_images imread ops read_nframes s =
     (case (if read_nframes = Some (- 1) then I_cache s (- 1)
            else I_cache s (I_current_frame_chunk s)) of
        Some ff \<Rightarrow> Inr (ff, s)
      | None \<Rightarrow>
          let first_img_indx = (if read_nframes = Some (- 1) then 0
                                else I_current_frame_chunk s * I_fr_chunk_no s);
              frames_to_read = computeFramesToRead read_nframes (I_total_frames s)
                                 (I_fr_chunk_no s) (I_current_frame_chunk s);
              maxpix0 = replicate (I_nrows s * I_ncols s) 0;
              avepix0 = replicate (I_nrows s * I_ncols s) (f_of_int ops 0)
          in case images_loop imread ops s first_img_indx frames_to_read (nat frames_to_read) 0
                    maxpix0 avepix0 None of
               Inl e \<Rightarrow> Inl e
             | Inr (maxpix, avepix, last_i) \<Rightarrow>
                 (case last_i of
                    None \<Rightarrow> Inl UnboundLocalError
                  | Some i \<Rightarrow>
                      let ff_struct_fake = \<lparr> maxpixel = maxpix, avepixel = ave_cast ops avepix,
                                             nrows = I_nrows s, ncols = I_ncols s,
                                             nframes = I_total_frames s \<rparr>;
                          cache_id = (if read_nframes = Some (- 1) then - 1
                                      else I_current_frame_chunk s)
                      in Inr (ff_struct_fake,
                              s\<lparr>I_current_fr_chunk_size := i,
                                I_cache := Map.empty(cache_id \<mapsto> ff_struct_fake)\<rparr>)))"

text \<open>
  \<^verbatim>\<open>__init__\<close>, after the beginning time and the fps are resolved: \<open>names\<close> are the file
  names of the directory with a supported extension (without any the constructor exits),
  \<open>rows\<close> and \<open>cols\<close> the shape of the first image. The first image is loaded for its
  shape only.
\<close>

definition init_images :: "(string \<Rightarrow> 'a::len word list) \<Rightarrow> 'f float_ops \<Rightarrow> string list \<Rightarrow>
    nat \<Rightarrow> nat \<Rightarrow> py_error + 'a word InputTypeImages" where
  "init_images imread ops names rows cols =
     (let img_list = sort names
      in if length img_list = 0 then Inl SystemExit
         else
           let total_frames = int (length img_list);
               fr_chunk_no = 64;
               total_fr_chunks = total_frames div fr_chunk_no;
               total_fr_chunks = (if total_fr_chunks = 0 then 1 else total_fr_chunks);
               s = \<lparr> I_img_list = img_list,
                     I_current_frame_chunk = 0,
                     I_total_frames = total_frames,
                     I_current_frame = 0,
                     I_current_img_file = img_list ! 0,
                     I_nrows = rows,
                     I_ncols = cols,
                     I_fr_chunk_no = fr_chunk_no,
                     I_current_fr_chunk_size = fr_chunk_no,
                     I_total_fr_chunks = total_fr_chunks,
                     I_cache = Map.empty \<rparr>
           in (case loadChunk_images imread ops None s of
                 Inl e \<Rightarrow> Inl e
               | Inr (ff, s') \<Rightarrow> Inr s'))"

subsection \<open>Sequences of calls\<close>

text \<open>
  A caller drives an adapter by a sequence of calls of its navigation and aggregation
  methods; an error ends the sequence, as an uncaught exception does.
\<close>

datatype call = NextChunk | PrevChunk | NextFrame | PrevFrame | LoadChunk "int option"

fun run :: "(call \<Rightarrow> 's \<Rightarrow> py_error + 's) \<Rightarrow> call list \<Rightarrow> 's \<Rightarrow> py_error + 's" where
  "run step [] s = Inr s"
| "run step (c # cs) s = (case step c s of Inl e \<Rightarrow> Inl e | Inr s' \<Rightarrow> run step cs s')"

fun step_ff :: "(string \<Rightarrow> 'p FFMimickInterface) \<Rightarrow> (string \<Rightarrow> 't) \<Rightarrow> call \<Rightarrow>
    ('p, 't) InputTypeFF \<Rightarrow> py_error + ('p, 't) InputTypeFF" where
  "step_ff readFF f2d NextChunk s = nextChunk_ff f2d s"
| "step_ff readFF f2d PrevChunk s = prevChunk_ff f2d s"
| "step_ff readFF f2d NextFrame s = nextFrame_ff s"
| "step_ff readFF f2d PrevFrame s = prevFrame_ff s"
| "step_ff readFF f2d (LoadChunk n) s = map_sum id snd (loadChunk_ff readFF n s)"

fun step_video :: "'f float_ops \<Rightarrow> call \<Rightarrow> 'a::len word InputTypeVideo \<Rightarrow>
    py_error + 'a word InputTypeVideo" where
  "step_video ops NextChunk s = nextChunk_video s"
| "step_video ops PrevChunk s = prevChunk_video s"
| "step_video ops NextFrame s = nextFrame_video s"
| "step_video ops PrevFrame s = prevFrame_video s"
| "step_video ops (LoadChunk n) s = map_sum id snd (loadChunk_video ops n s)"

fun step_uwovid :: "'f float_ops \<Rightarrow> call \<Rightarrow> ('a::len word, 't) InputTypeUWOVid \<Rightarrow>
    py_error + ('a word, 't) InputTypeUWOVid" where
  "step_uwovid ops NextChunk s = nextChunk_uwovid s"
| "step_uwovid ops PrevChunk s = prevChunk_uwovid s"
| "step_uwovid ops NextFrame s = nextFrame_uwovid s"
| "step_uwovid ops PrevFrame s = prevFrame_uwovid s"
| "step_uwovid ops (LoadChunk n) s = map_sum id snd (loadChunk_uwovid ops n s)"

fun step_images :: "(string \<Rightarrow> 'a::len word list) \<Rightarrow> 'f float_ops \<Rightarrow> call \<Rightarrow>
    'a word InputTypeImages \<Rightarrow> py_error + 'a word InputTypeImages" where
  "step_images imread ops NextChunk s = nextChunk_images s"
| "step_images imread ops PrevChunk s = prevChunk_images s"
| "step_images imread ops NextFrame s = nextFrame_images s"
| "step_images imread ops PrevFrame s = prevFrame_images s"
| "step_images imread ops (LoadChunk n) s = map_sum id snd (loadChunk_images imread ops n s)"

subsection \<open>Auxiliary notions for the statements\<close>

text \<open>The image adapter at frame \<open>f\<close>: the frame index and the file of that index.\<close>

definition frame_file :: "'p InputTypeImages \<Rightarrow> int \<Rightarrow> 'p InputTypeImages" where
  "frame_file s f = s\<lparr>I_current_frame := f, I_current_img_file := I_img_list s ! nat f\<rparr>"

text \<open>
  The key under which \<^verbatim>\<open>loadChunk\<close> of the three streaming adapters looks up and stores
  an aggregate: \<open>-1\<close> for the whole source, the chunk index otherwise.
\<close>

definition cache_key :: "int option \<Rightarrow> int \<Rightarrow> int" where
  "cache_key read_nframes current_frame_chunk =
     (if read_nframes = Some (- 1) then - 1 else current_frame_chunk)"

text \<open>The frames that \<open>k\<close> successive reads of a capture return.\<close>

definition window :: "'p capture \<Rightarrow> nat \<Rightarrow> 'p list list" where
  "window cap k = take k (drop (cap_pos cap) (cap_frames cap))"

text \<open>
  For a \<^verbatim>\<open>loadChunk\<close> call of the video adapter that aggregates: the number of frames it
  asks for, the position it starts to decode at, and the frames it decodes, which are the
  frames of the file from that position, at most as many as asked for.
\<close>

definition video_frames_to_read :: "int option \<Rightarrow> 'p InputTypeVideo \<Rightarrow> int" where
  "video_frames_to_read n s =
     computeFramesToRead n (V_total_frames s) (V_fr_chunk_no s) (V_current_frame_chunk s)"

definition video_start :: "int option \<Rightarrow> 'p InputTypeVideo \<Rightarrow> nat" where
  "video_start n s =
     (if n = Some (- 1) then 0 else nat (V_current_frame_chunk s * V_fr_chunk_no s))"

definition video_window :: "int option \<Rightarrow> 'p InputTypeVideo \<Rightarrow> 'p list list" where
  "video_window n s =
     take (nat (video_frames_to_read n s)) (drop (video_start n s) (cap_frames (V_cap s)))"

text \<open>The same for the vid adapter, on the records of the file.\<close>

definition uwovid_frames_to_read :: "int option \<Rightarrow> ('p, 't) InputTypeUWOVid \<Rightarrow> int" where
  "uwovid_frames_to_read n s =
     computeFramesToRead n (U_total_frames s) (U_fr_chunk_no s) (U_current_frame_chunk s)"

definition uwovid_start :: "int option \<Rightarrow> ('p, 't) InputTypeUWOVid \<Rightarrow> nat" where
  "uwovid_start n s =
     (if n = Some (- 1) then 0 else nat (U_current_frame_chunk s * U_fr_chunk_no s))"

definition uwovid_window :: "int option \<Rightarrow> ('p, 't) InputTypeUWOVid \<Rightarrow> ('p list \<times> 't) list" where
  "uwovid_window n s =
     take (nat (uwovid_frames_to_read n s))
       (drop (uwovid_start n s) (vid_records (U_vid_file s)))"

text \<open>
  The same for the image adapter: the loop loads the images from the first index of the
  window up to, and not including, the index \<^verbatim>\<open>total_frames - 1\<close>, at most as many as
  asked for.
\<close>

definition images_frames_to_read :: "int option \<Rightarrow> 'p InputTypeImages \<Rightarrow> int" where
  "images_frames_to_read n s =
     computeFramesToRead n (I_total_frames s) (I_fr_chunk_no s) (I_current_frame_chunk s)"

definition images_start :: "int option \<Rightarrow> 'p InputTypeImages \<Rightarrow> int" where
  "images_start n s =
     (if n = Some (- 1) then 0 else I_current_frame_chunk s * I_fr_chunk_no s)"

definition images_window :: "(string \<Rightarrow> 'p list) \<Rightarrow> int option \<Rightarrow> 'p InputTypeImages \<Rightarrow>
    'p list list" where
  "images_window imread n s =
     map (\<lambda>i. imread (I_img_list s ! i))
       [nat (images_start n s) ..<
        nat (min (images_start n s + images_frames_to_read n s) (I_total_frames s - 1))]"

subsection \<open>Example sources\<close>

text \<open>
  Small sources on which the adapters are evaluated: an archive directory of two files,
  a video file of two decodable frames whose container reports four, a vid file of two
  records, and a directory of two images. All frames have one pixel.
\<close>

definition example_readFF :: "string \<Rightarrow> 8 word FFMimickInterface" where
  "example_readFF name =
     \<lparr> maxpixel = [200], avepixel = [10], nrows = 1, ncols = 1, nframes = 256 \<rparr>"

definition example_ff :: "(8 word, string) InputTypeFF" where
  "example_ff =
     \<lparr> F_ff_list = [''FF_a.fits'', ''FF_b.fits''], F_current_ff_index = 0,
       F_current_ff_file = ''FF_a.fits'', F_beginning_datetime = ''FF_a.fits'',
       F_current_frame = 0, F_cache = [''FF_a.fits'' \<mapsto> example_readFF ''FF_a.fits''],
       F_ff = Some (example_readFF ''FF_a.fits'') \<rparr>"

definition example_video :: "8 word InputTypeVideo" where
  "example_video = init_video [[8], [8]] 4 1 1"

definition example_video_loaded :: "8 word InputTypeVideo" where
  "example_video_loaded =
     \<lparr> V_cap = \<lparr>cap_frames = [[8], [8]], cap_pos = 2\<rparr>,
       V_current_frame_chunk = 0, V_total_frames = 4, V_nrows = 1, V_ncols = 1,
       V_fr_chunk_no = 256, V_total_fr_chunks = 1, V_current_fr_chunk_size = 3,
       V_current_frame = 0,
       V_cache = [0 \<mapsto> \<lparr>maxpixel = [8], avepixel = [4], nrows = 1, ncols = 1, nframes = 4\<rparr>] \<rparr>"

definition example_uwovid :: "(16 word, nat) InputTypeUWOVid" where
  "example_uwovid =
     \<lparr> U_vid_file = \<lparr>vid_records = [([5], 0), ([7], 1)], vid_pos = 2\<rparr>,
       U_current_frame_chunk = 0, U_current_frame = 0, U_current_fr_chunk_size = 2,
       U_total_frames = 2, U_nrows = 1, U_ncols = 1, U_fr_chunk_no = 128,
       U_total_fr_chunks = 1, U_frame_chunk_unix_times = [0, 1],
       U_cache = [0 \<mapsto> (\<lparr>maxpixel = [7], avepixel = [6], nrows = 1, ncols = 1, nframes = 2\<rparr>,
                          [0, 1])] \<rparr>"

definition example_imread :: "string \<Rightarrow> 8 word list" where
  "example_imread name = (if name = ''a.png'' then [1] else [9])"

definition example_images :: "8 word InputTypeImages" where
  "example_images =
     \<lparr> I_img_list = [''a.png'', ''b.png''], I_current_frame_chunk = 0, I_total_frames = 2,
       I_current_frame = 0, I_current_img_file = ''a.png'', I_nrows = 1, I_ncols = 1,
       I_fr_chunk_no = 64, I_current_fr_chunk_size = 1, I_total_fr_chunks = 1,
       I_cache = [0 \<mapsto> \<lparr>maxpixel = [1], avepixel = [0], nrows = 1, ncols = 1, nframes = 2\<rparr>] \<rparr>"

section \<open>Properties\<close>

lemma py_mod_Inr: "b \<noteq> 0 \<Longrightarrow> py_mod a b = Inr (a mod b)"
  by (simp add: py_mod_def)

lemma py_index_Inr: "0 \<le> i \<Longrightarrow> i < int (length xs) \<Longrightarrow> py_index xs i = Inr (xs ! nat i)"
  by (simp add: py_index_def)

lemma mod_succ: "(((a::int) + 1) mod t + int N) mod t = (a + int (Suc N)) mod t"
proof -
  have "((a + 1) mod t + int N) mod t = (a + 1 + int N) mod t"
    by (rule mod_add_left_eq)
  also have "a + 1 + int N = a + int (Suc N)" by simp
  finally show ?thesis .
qed

lemma nextFrame_video_eq:
  "V_total_frames s \<noteq> 0 \<Longrightarrow>
   nextFrame_video s = Inr (s\<lparr>V_current_frame := (V_current_frame s + 1) mod V_total_frames s\<rparr>)"
  by (simp add: nextFrame_video_def py_mod_Inr)

lemma prevFrame_video_eq:
  "V_total_frames s \<noteq> 0 \<Longrightarrow>
   prevFrame_video s = Inr (s\<lparr>V_current_frame := (V_current_frame s - 1) mod V_total_frames s\<rparr>)"
  by (simp add: prevFrame_video_def py_mod_Inr)

lemma run_nextFrame_video:
  "V_total_frames s \<noteq> 0 \<Longrightarrow>
   run (step_video ops) (replicate N NextFrame) s =
     Inr (s\<lparr>V_current_frame := (if N = 0 then V_current_frame s
                                else (V_current_frame s + int N) mod V_total_frames s)\<rparr>)"
proof (induction N arbitrary: s)
  case 0
  show ?case by simp
next
  case (Suc N)
  let ?s1 = "s\<lparr>V_current_frame := (V_current_frame s + 1) mod V_total_frames s\<rparr>"
  have m: "((V_current_frame s + 1) mod V_total_frames s + int N) mod V_total_frames s =
        (V_current_frame s + int (Suc N)) mod V_total_frames s"
    by (rule mod_succ)
  have "run (step_video ops) (replicate (Suc N) NextFrame) s =
        run (step_video ops) (replicate N NextFrame) ?s1"
    using Suc.prems by (simp add: nextFrame_video_eq)
  also have "\<dots> = Inr (?s1\<lparr>V_current_frame := (if N = 0 then V_current_frame ?s1
                                else (V_current_frame ?s1 + int N) mod V_total_frames s)\<rparr>)"
    using Suc.IH [of ?s1] Suc.prems by simp
  also have "\<dots> = Inr (s\<lparr>V_current_frame := (V_current_frame s + int (Suc N)) mod V_total_frames s\<rparr>)"
    using m by (cases "N = 0") simp_all
  finally show ?case by simp
qed

lemma nextFrame_ff_eq:
  "F_ff s = Some ff \<Longrightarrow> nframes ff \<noteq> 0 \<Longrightarrow>
   nextFrame_ff s = Inr (s\<lparr>F_current_frame := (F_current_frame s + 1) mod nframes ff\<rparr>)"
  by (simp add: nextFrame_ff_def py_mod_Inr)

lemma prevFrame_ff_eq:
  "F_ff s = Some ff \<Longrightarrow> nframes ff \<noteq> 0 \<Longrightarrow>
   prevFrame_ff s = Inr (s\<lparr>F_current_frame := (F_current_frame s - 1) mod nframes ff\<rparr>)"
  by (simp add: prevFrame_ff_def py_mod_Inr)

lemma run_nextFrame_ff:
  "F_ff s = Some ff \<Longrightarrow> nframes ff \<noteq> 0 \<Longrightarrow>
   run (step_ff readFF f2d) (replicate N NextFrame) s =
     Inr (s\<lparr>F_current_frame := (if N = 0 then F_current_frame s
                                else (F_current_frame s + int N) mod nframes ff)\<rparr>)"
proof (induction N arbitrary: s)
  case 0
  show ?case by simp
next
  case (Suc N)
  let ?s1 = "s\<lparr>F_current_frame := (F_current_frame s + 1) mod nframes ff\<rparr>"
  have m: "((F_current_frame s + 1) mod nframes ff + int N) mod nframes ff =
        (F_current_frame s + int (Suc N)) mod nframes ff"
    by (rule mod_succ)
  have "run (step_ff readFF f2d) (replicate (Suc N) NextFrame) s =
        run (step_ff readFF f2d) (replicate N NextFrame) ?s1"
    using Suc.prems by (simp add: nextFrame_ff_eq)
  also have "\<dots> = Inr (?s1\<lparr>F_current_frame := (if N = 0 then F_current_frame ?s1
                                else (F_current_frame ?s1 + int N) mod nframes ff)\<rparr>)"
    using Suc.IH [of ?s1] Suc.prems by simp
  also have "\<dots> = Inr (s\<lparr>F_current_frame := (F_current_frame s + int (Suc N)) mod nframes ff\<rparr>)"
    using m by (cases "N = 0") simp_all
  finally show ?case by simp
qed

lemma nextFrame_uwovid_eq:
  "U_total_frames s \<noteq> 0 \<Longrightarrow>
   nextFrame_uwovid s = Inr (s\<lparr>U_current_frame := (U_current_frame s + 1) mod U_total_frames s\<rparr>)"
  by (simp add: nextFrame_uwovid_def py_mod_Inr)

lemma prevFrame_uwovid_eq:
  "U_total_frames s \<noteq> 0 \<Longrightarrow>
   prevFrame_uwovid s = Inr (s\<lparr>U_current_frame := (U_current_frame s - 1) mod U_total_frames s\<rparr>)"
  by (simp add: prevFrame_uwovid_def py_mod_Inr)

lemma run_nextFrame_uwovid:
  "U_total_frames s \<noteq> 0 \<Longrightarrow>
   run (step_uwovid ops) (replicate N NextFrame) s =
     Inr (s\<lparr>U_current_frame := (if N = 0 then U_current_frame s
                                else (U_current_frame s + int N) mod U_total_frames s)\<rparr>)"
proof (induction N arbitrary: s)
  case 0
  show ?case by simp
next
  case (Suc N)
  let ?s1 = "s\<lparr>U_current_frame := (U_current_frame s + 1) mod U_total_frames s\<rparr>"
  have m: "((U_current_frame s + 1) mod U_total_frames s + int N) mod U_total_frames s =
        (U_current_frame s + int (Suc N)) mod U_total_frames s"
    by (rule mod_succ)
  have "run (step_uwovid ops) (replicate (Suc N) NextFrame) s =
        run (step_uwovid ops) (replicate N NextFrame) ?s1"
    using Suc.prems by (simp add: nextFrame_uwovid_eq)
  also have "\<dots> = Inr (?s1\<lparr>U_current_frame := (if N = 0 then U_current_frame ?s1
                                else (U_current_frame ?s1 + int N) mod U_total_frames s)\<rparr>)"
    using Suc.IH [of ?s1] Suc.prems by simp
  also have "\<dots> = Inr (s\<lparr>U_current_frame := (U_current_frame s + int (Suc N)) mod U_total_frames s\<rparr>)"
    using m by (cases "N = 0") simp_all
  finally show ?case by simp
qed

lemma nextFrame_images_eq:
  assumes "I_total_frames s = int (length (I_img_list s))" "I_total_frames s \<noteq> 0"
  shows "nextFrame_images s = Inr (frame_file s ((I_current_frame s + 1) mod I_total_frames s))"
proof -
  have pos: "0 < I_total_frames s" using assms by simp
  have "py_index (I_img_list s) ((I_current_frame s + 1) mod I_total_frames s) =
        Inr (I_img_list s ! nat ((I_current_frame s + 1) mod I_total_frames s))"
    using pos assms(1) by (intro py_index_Inr) simp_all
  then show ?thesis
    using assms by (simp add: nextFrame_images_def py_mod_Inr frame_file_def)
qed

lemma prevFrame_images_eq:
  assumes "I_total_frames s = int (length (I_img_list s))" "I_total_frames s \<noteq> 0"
  shows "prevFrame_images s = Inr (frame_file s ((I_current_frame s - 1) mod I_total_frames s))"
proof -
  have pos: "0 < I_total_frames s" using assms by simp
  have "py_index (I_img_list s) ((I_current_frame s - 1) mod I_total_frames s) =
        Inr (I_img_list s ! nat ((I_current_frame s - 1) mod I_total_frames s))"
    using pos assms(1) by (intro py_index_Inr) simp_all
  then show ?thesis
    using assms by (simp add: prevFrame_images_def py_mod_Inr frame_file_def)
qed

lemma run_nextFrame_images:
  assumes "I_total_frames s = int (length (I_img_list s))" "I_total_frames s \<noteq> 0"
  shows "run (step_images imread ops) (replicate N NextFrame) s =
     Inr (if N = 0 then s else frame_file s ((I_current_frame s + int N) mod I_total_frames s))"
  using assms
proof (induction N arbitrary: s)
  case 0
  show ?case by simp
next
  case (Suc N)
  let ?s1 = "frame_file s ((I_current_frame s + 1) mod I_total_frames s)"
  have t: "I_total_frames ?s1 = int (length (I_img_list ?s1))" "I_total_frames ?s1 \<noteq> 0"
    using Suc.prems by (simp_all add: frame_file_def)
  have m: "((I_current_frame s + 1) mod I_total_frames s + int N) mod I_total_frames s =
        (I_current_frame s + int (Suc N)) mod I_total_frames s"
    by (rule mod_succ)
  have ff: "frame_file ?s1 f = frame_file s f" for f
    by (simp add: frame_file_def)
  have c: "I_current_frame ?s1 = (I_current_frame s + 1) mod I_total_frames s"
          "I_total_frames ?s1 = I_total_frames s"
    by (simp_all add: frame_file_def)
  have "run (step_images imread ops) (replicate (Suc N) NextFrame) s =
        run (step_images imread ops) (replicate N NextFrame) ?s1"
    by (simp add: nextFrame_images_eq [OF Suc.prems])
  also have "\<dots> = Inr (if N = 0 then ?s1
       else frame_file ?s1 ((I_current_frame ?s1 + int N) mod I_total_frames ?s1))"
    by (rule Suc.IH [OF t])
  also have "\<dots> = Inr (frame_file s ((I_current_frame s + int (Suc N)) mod I_total_frames s))"
    using m by (cases "N = 0") (simp_all add: ff c)
  finally show ?case by simp
qed

subsection \<open>The examples are constructed sources\<close>

lemma video_loop_numeral:
  "video_loop ops ftr (numeral n) i cap mx av li =
     (case cap_read cap of
        (None, cap') \<Rightarrow> (cap', mx, av, Some i)
      | (Some frame, cap') \<Rightarrow>
          video_loop ops ftr (pred_numeral n) (i + 1) cap'
            (max_step mx frame) (ave_step ops ftr av frame) (Some i))"
  by (simp add: numeral_eq_Suc)

lemma uwovid_loop_numeral:
  "uwovid_loop ops ftr (numeral n) i vf mx av ts li =
     (case readVidFrame vf of
        (None, vf') \<Rightarrow> Inl AttributeError
      | (Some (frame, t), vf') \<Rightarrow>
          uwovid_loop ops ftr (pred_numeral n) (i + 1) vf'
            (max_step mx frame) (ave_step ops ftr av frame) (ts @ [t]) (Some i))"
  by (simp add: numeral_eq_Suc)

lemma images_loop_numeral:
  "images_loop imread ops s first ftr (numeral n) i mx av li =
     (let img_indx = first + i
      in if img_indx \<ge> I_total_frames s - 1 then Inr (mx, av, Some i)
         else
           (case loadFrame_images imread (Some img_indx) s of
              Inl e \<Rightarrow> Inl e
            | Inr frame \<Rightarrow>
                images_loop imread ops s first ftr (pred_numeral n) (i + 1)
                  (max_step mx frame) (ave_step ops ftr av frame) (Some i)))"
  by (simp add: numeral_eq_Suc)

lemmas eval_video = loadChunk_video_def computeFramesToRead_def Let_def video_loop_numeral
  cap_set_def cap_read_def max_step_def ave_step_def ave_cast_def exact_ops_def

lemmas eval_uwovid = loadChunk_uwovid_def computeFramesToRead_def Let_def uwovid_loop_numeral
  readVidFrame_def vid_seek_def max_step_def ave_step_def ave_cast_def exact_ops_def

lemmas eval_images = loadChunk_images_def computeFramesToRead_def Let_def images_loop_numeral
  loadFrame_images_def py_index_def max_step_def ave_step_def ave_cast_def exact_ops_def

lemma sort_example_ff: "sort [''FF_b.fits'', ''FF_a.fits''] = [''FF_a.fits'', ''FF_b.fits'']"
  by code_simp

lemma sort_example_images: "sort [''b.png'', ''a.png''] = [''a.png'', ''b.png'']"
  by code_simp

lemma init_ff_example:
  "init_ff example_readFF id [''FF_b.fits'', ''FF_a.fits''] = Inr example_ff"
  by (simp add: init_ff_def sort_example_ff loadChunk_ff_def example_ff_def Let_def)

lemma loadChunk_video_example:
  "loadChunk_video exact_ops None example_video =
     Inr (\<lparr>maxpixel = [8], avepixel = [4], nrows = 1, ncols = 1, nframes = 4\<rparr>,
          example_video_loaded)"
  by (simp add: example_video_def init_video_def eval_video example_video_loaded_def)

lemma init_uwovid_example:
  "init_uwovid exact_ops [([5], 0), ([7], 1)] 2 1 1 = Inr example_uwovid"
  by (simp add: init_uwovid_def eval_uwovid example_uwovid_def)

lemma init_images_example:
  "init_images example_imread exact_ops [''b.png'', ''a.png''] 1 1 = Inr example_images"
  by (simp add: init_images_def sort_example_images eval_images example_imread_def
      example_images_def)

subsection \<open>loadChunk: the cached and the computed case\<close>

lemma loadChunk_ff_hit:
  "F_cache s (F_current_ff_file s) = Some ff \<Longrightarrow> loadChunk_ff readFF n s = Inr (ff, s)"
  by (simp add: loadChunk_ff_def)

lemma loadChunk_ff_miss:
  "F_cache s (F_current_ff_file s) = None \<Longrightarrow>
   loadChunk_ff readFF n s =
     Inr (readFF (F_current_ff_file s),
          s\<lparr>F_ff := Some (readFF (F_current_ff_file s)), F_current_frame := 0,
            F_cache := [F_current_ff_file s \<mapsto> readFF (F_current_ff_file s)]\<rparr>)"
  by (simp add: loadChunk_ff_def Let_def)

lemma loadChunk_video_hit:
  "V_cache s (cache_key n (V_current_frame_chunk s)) = Some ff \<Longrightarrow>
   loadChunk_video ops n s = Inr (ff, s)"
  by (simp add: loadChunk_video_def cache_key_def split: if_splits)

lemma loadChunk_video_miss:
  assumes "V_cache s (cache_key n (V_current_frame_chunk s)) = None"
    and "loadChunk_video ops n s = Inr (ff, s')"
  shows "\<exists>cap1 i. s' = s\<lparr>V_cap := cap1, V_current_fr_chunk_size := i,
            V_cache := [cache_key n (V_current_frame_chunk s) \<mapsto> ff]\<rparr>"
  using assms
  by (auto simp: loadChunk_video_def cache_key_def Let_def
      split: if_splits prod.splits option.splits)

lemma loadChunk_images_hit:
  "I_cache s (cache_key n (I_current_frame_chunk s)) = Some ff \<Longrightarrow>
   loadChunk_images imread ops n s = Inr (ff, s)"
  by (simp add: loadChunk_images_def cache_key_def split: if_splits)

lemma loadChunk_images_miss:
  assumes "I_cache s (cache_key n (I_current_frame_chunk s)) = None"
    and "loadChunk_images imread ops n s = Inr (ff, s')"
  shows "\<exists>i. s' = s\<lparr>I_current_fr_chunk_size := i,
            I_cache := [cache_key n (I_current_frame_chunk s) \<mapsto> ff]\<rparr>"
  using assms
  by (auto simp: loadChunk_images_def cache_key_def Let_def
      split: if_splits prod.splits option.splits sum.splits)

lemma loadChunk_uwovid_hit_all:
  "U_cache s (- 1) = Some (ff, uts) \<Longrightarrow>
   loadChunk_uwovid ops (Some (- 1)) s = Inr (CacheList ff uts, s)"
  by (simp add: loadChunk_uwovid_def)

lemma loadChunk_uwovid_hit_chunk:
  "n \<noteq> Some (- 1) \<Longrightarrow> U_cache s (U_current_frame_chunk s) = Some (ff, uts) \<Longrightarrow>
   loadChunk_uwovid ops n s = Inr (Struct ff, s\<lparr>U_frame_chunk_unix_times := uts\<rparr>)"
  by (simp add: loadChunk_uwovid_def)

lemma loadChunk_uwovid_miss:
  assumes "U_cache s (cache_key n (U_current_frame_chunk s)) = None"
    and "loadChunk_uwovid ops n s = Inr (r, s')"
  shows "\<exists>ff vf1 uts i. r = Struct ff \<and>
           s' = s\<lparr>U_vid_file := vf1, U_frame_chunk_unix_times := uts,
                  U_current_fr_chunk_size := i,
                  U_cache := [cache_key n (U_current_frame_chunk s) \<mapsto> (ff, uts)]\<rparr>"
  using assms
  by (auto simp: loadChunk_uwovid_def cache_key_def Let_def
      split: if_splits prod.splits option.splits sum.splits)

subsection \<open>Chunk navigation\<close>

lemma nextChunk_video_eq:
  "V_total_fr_chunks s \<noteq> 0 \<Longrightarrow>
   nextChunk_video s =
     Inr (s\<lparr>V_current_frame_chunk := (V_current_frame_chunk s + 1) mod V_total_fr_chunks s,
            V_current_frame :=
              (V_current_frame_chunk s + 1) mod V_total_fr_chunks s * V_fr_chunk_no s\<rparr>)"
  by (simp add: nextChunk_video_def py_mod_Inr)

lemma prevChunk_video_eq:
  "V_total_fr_chunks s \<noteq> 0 \<Longrightarrow>
   prevChunk_video s =
     Inr (s\<lparr>V_current_frame_chunk := (V_current_frame_chunk s - 1) mod V_total_fr_chunks s,
            V_current_frame :=
              (V_current_frame_chunk s - 1) mod V_total_fr_chunks s * V_fr_chunk_no s\<rparr>)"
  by (simp add: prevChunk_video_def py_mod_Inr)

lemma nextChunk_uwovid_eq:
  "U_total_fr_chunks s \<noteq> 0 \<Longrightarrow>
   nextChunk_uwovid s =
     Inr (s\<lparr>U_current_frame_chunk := (U_current_frame_chunk s + 1) mod U_total_fr_chunks s,
            U_current_frame :=
              (U_current_frame_chunk s + 1) mod U_total_fr_chunks s * U_fr_chunk_no s\<rparr>)"
  by (simp add: nextChunk_uwovid_def py_mod_Inr)

lemma prevChunk_uwovid_eq:
  "U_total_fr_chunks s \<noteq> 0 \<Longrightarrow>
   prevChunk_uwovid s =
     Inr (s\<lparr>U_current_frame_chunk := (U_current_frame_chunk s - 1) mod U_total_fr_chunks s,
            U_current_frame :=
              (U_current_frame_chunk s - 1) mod U_total_fr_chunks s * U_fr_chunk_no s\<rparr>)"
  by (simp add: prevChunk_uwovid_def py_mod_Inr)

lemma nextChunk_images_eq:
  "I_total_fr_chunks s \<noteq> 0 \<Longrightarrow>
   nextChunk_images s =
     Inr (s\<lparr>I_current_frame_chunk := (I_current_frame_chunk s + 1) mod I_total_fr_chunks s,
            I_current_frame :=
              (I_current_frame_chunk s + 1) mod I_total_fr_chunks s * I_fr_chunk_no s\<rparr>)"
  by (simp add: nextChunk_images_def py_mod_Inr)

lemma prevChunk_images_eq:
  "I_total_fr_chunks s \<noteq> 0 \<Longrightarrow>
   prevChunk_images s =
     Inr (s\<lparr>I_current_frame_chunk := (I_current_frame_chunk s - 1) mod I_total_fr_chunks s,
            I_current_frame :=
              (I_current_frame_chunk s - 1) mod I_total_fr_chunks s * I_fr_chunk_no s\<rparr>)"
  by (simp add: prevChunk_images_def py_mod_Inr)

lemma ff_index_in_range:
  assumes "xs \<noteq> []"
  shows "py_index xs (i mod int (length xs)) = Inr (xs ! nat (i mod int (length xs)))"
proof -
  have "0 < int (length xs)" using assms by simp
  then show ?thesis by (intro py_index_Inr) simp_all
qed

lemma nextChunk_ff_eq:
  assumes "F_ff_list s \<noteq> []"
  shows "nextChunk_ff f2d s =
     Inr (s\<lparr>F_current_ff_index := (F_current_ff_index s + 1) mod int (length (F_ff_list s)),
            F_current_ff_file :=
              F_ff_list s ! nat ((F_current_ff_index s + 1) mod int (length (F_ff_list s))),
            F_beginning_datetime :=
              f2d (F_ff_list s ! nat ((F_current_ff_index s + 1) mod int (length (F_ff_list s))))\<rparr>)"
  using assms by (simp add: nextChunk_ff_def py_mod_Inr ff_index_in_range)

lemma prevChunk_ff_eq:
  assumes "F_ff_list s \<noteq> []"
  shows "prevChunk_ff f2d s =
     Inr (s\<lparr>F_current_ff_index := (F_current_ff_index s - 1) mod int (length (F_ff_list s)),
            F_current_ff_file :=
              F_ff_list s ! nat ((F_current_ff_index s - 1) mod int (length (F_ff_list s))),
            F_beginning_datetime :=
              f2d (F_ff_list s ! nat ((F_current_ff_index s - 1) mod int (length (F_ff_list s))))\<rparr>)"
  using assms by (simp add: prevChunk_ff_def py_mod_Inr ff_index_in_range)

subsection \<open>Invariants of call sequences\<close>

lemma run_invariant:
  assumes step: "\<And>c s s'. P s \<Longrightarrow> step c s = Inr s' \<Longrightarrow> P s'"
    and "P s" and "run step cs s = Inr s'"
  shows "P s'"
  using assms(2,3)
proof (induction cs arbitrary: s)
  case Nil
  then show ?case by simp
next
  case (Cons c cs)
  then obtain s1 where s1: "step c s = Inr s1" and r: "run step cs s1 = Inr s'"
    by (auto split: sum.splits)
  from step [OF Cons.prems(1) s1] have "P s1" .
  from Cons.IH [OF this r] show ?case .
qed

subsection \<open>The aggregation loop of the video adapter as a fold over its window\<close>

lemma cap_read_some:
  "cap_pos cap < length (cap_frames cap) \<Longrightarrow>
   cap_read cap = (Some (cap_frames cap ! cap_pos cap), cap\<lparr>cap_pos := cap_pos cap + 1\<rparr>)"
  by (simp add: cap_read_def)

lemma cap_read_none:
  "\<not> cap_pos cap < length (cap_frames cap) \<Longrightarrow> cap_read cap = (None, cap)"
  by (simp add: cap_read_def)

lemma video_loop_eq:
  "video_loop ops ftr k i cap mx av li =
     (cap\<lparr>cap_pos := cap_pos cap + length (window cap k)\<rparr>,
      foldl max_step mx (window cap k),
      foldl (ave_step ops ftr) av (window cap k),
      if k = 0 then li
      else if length (window cap k) < k then Some (i + int (length (window cap k)))
      else Some (i + int k - 1))"
proof (induction k arbitrary: i cap mx av li)
  case 0
  show ?case by (simp add: window_def)
next
  case (Suc k)
  show ?case
  proof (cases "cap_pos cap < length (cap_frames cap)")
    case True
    let ?cap' = "cap\<lparr>cap_pos := cap_pos cap + 1\<rparr>"
    have w: "window cap (Suc k) = (cap_frames cap ! cap_pos cap) # window ?cap' k"
      using True by (simp add: window_def Cons_nth_drop_Suc [symmetric])
    show ?thesis
      by (simp add: cap_read_some [OF True] Suc.IH w)
  next
    case False
    then have w: "window cap (Suc k) = []" by (simp add: window_def)
    show ?thesis
      by (simp add: cap_read_none [OF False] w)
  qed
qed

subsection \<open>What the calls never change\<close>

lemma step_video_const:
  assumes "step_video ops c s = Inr s'"
  shows "V_total_fr_chunks s' = V_total_fr_chunks s \<and> V_fr_chunk_no s' = V_fr_chunk_no s \<and>
         V_total_frames s' = V_total_frames s \<and> V_nrows s' = V_nrows s \<and> V_ncols s' = V_ncols s \<and>
         cap_frames (V_cap s') = cap_frames (V_cap s)"
proof (cases c)
  case (LoadChunk n)
  with assms obtain ff where l: "loadChunk_video ops n s = Inr (ff, s')"
    by (cases "loadChunk_video ops n s") auto
  show ?thesis
  proof (cases "V_cache s (cache_key n (V_current_frame_chunk s))")
    case None
    with l show ?thesis
      by (auto simp: loadChunk_video_def cache_key_def Let_def cap_set_def video_loop_eq
          split: if_splits option.splits)
  next
    case (Some a)
    with l loadChunk_video_hit [OF Some, of ops] show ?thesis by simp
  qed
qed (use assms in \<open>auto simp: nextChunk_video_def prevChunk_video_def nextFrame_video_def
      prevFrame_video_def split: sum.splits\<close>)

lemma step_uwovid_const:
  assumes "step_uwovid ops c s = Inr s'"
  shows "U_total_fr_chunks s' = U_total_fr_chunks s \<and> U_fr_chunk_no s' = U_fr_chunk_no s \<and>
         U_total_frames s' = U_total_frames s \<and> U_nrows s' = U_nrows s \<and> U_ncols s' = U_ncols s"
proof (cases c)
  case (LoadChunk n)
  with assms obtain r where l: "loadChunk_uwovid ops n s = Inr (r, s')"
    by (cases "loadChunk_uwovid ops n s") auto
  show ?thesis
  proof (cases "U_cache s (cache_key n (U_current_frame_chunk s))")
    case None
    from loadChunk_uwovid_miss [OF None l] show ?thesis by auto
  next
    case (Some a)
    obtain ff uts where a: "a = (ff, uts)" by (cases a)
    show ?thesis
    proof (cases "n = Some (- 1)")
      case True
      with Some a l loadChunk_uwovid_hit_all [of s ff uts ops] show ?thesis
        by (simp add: cache_key_def)
    next
      case False
      with Some a l loadChunk_uwovid_hit_chunk [of n s ff uts ops] show ?thesis
        by (auto simp: cache_key_def)
    qed
  qed
qed (use assms in \<open>auto simp: nextChunk_uwovid_def prevChunk_uwovid_def nextFrame_uwovid_def
      prevFrame_uwovid_def split: sum.splits\<close>)

lemma step_images_const:
  assumes "step_images imread ops c s = Inr s'"
  shows "I_total_fr_chunks s' = I_total_fr_chunks s \<and> I_fr_chunk_no s' = I_fr_chunk_no s \<and>
         I_total_frames s' = I_total_frames s \<and> I_nrows s' = I_nrows s \<and> I_ncols s' = I_ncols s \<and>
         I_img_list s' = I_img_list s"
proof (cases c)
  case (LoadChunk n)
  with assms obtain ff where l: "loadChunk_images imread ops n s = Inr (ff, s')"
    by (cases "loadChunk_images imread ops n s") auto
  show ?thesis
  proof (cases "I_cache s (cache_key n (I_current_frame_chunk s))")
    case None
    from loadChunk_images_miss [OF None l] show ?thesis by auto
  next
    case (Some a)
    with l loadChunk_images_hit [OF Some, of imread ops] show ?thesis by simp
  qed
qed (use assms in \<open>auto simp: nextChunk_images_def prevChunk_images_def nextFrame_images_def
      prevFrame_images_def split: sum.splits\<close>)

lemma step_ff_const:
  assumes "step_ff readFF f2d c s = Inr s'"
  shows "F_ff_list s' = F_ff_list s"
proof (cases c)
  case (LoadChunk n)
  with assms show ?thesis
    by (cases "F_cache s (F_current_ff_file s)")
      (auto simp: loadChunk_ff_def Let_def)
qed (use assms in \<open>auto simp: nextChunk_ff_def prevChunk_ff_def nextFrame_ff_def
      prevFrame_ff_def split: sum.splits option.splits\<close>)

subsection \<open>Construction\<close>

lemma clamp_max: "0 \<le> (t::int) \<Longrightarrow> 0 < k \<Longrightarrow> (if t div k = 0 then 1 else t div k) = max 1 (t div k)"
proof -
  assume "0 \<le> t" "0 < k"
  then have "0 \<le> t div k" by (simp add: pos_imp_zdiv_nonneg_iff)
  then show ?thesis by (auto simp: max_def)
qed

lemma init_video_chunks:
  "0 \<le> total_frames \<Longrightarrow>
   V_total_fr_chunks (init_video frames total_frames rows cols) = max 1 (total_frames div 256)"
  using clamp_max [of total_frames 256] by (simp add: init_video_def Let_def)

lemma init_uwovid_chunks:
  assumes "0 \<le> total_frames" "init_uwovid ops records total_frames rows cols = Inr s0"
  shows "U_total_fr_chunks s0 = max 1 (total_frames div 128)"
proof -
  let ?s = "\<lparr> U_vid_file = \<lparr>vid_records = records, vid_pos = 0\<rparr>,
                U_current_frame_chunk = 0, U_current_frame = 0, U_current_fr_chunk_size = 0,
                U_total_frames = total_frames, U_nrows = rows, U_ncols = cols,
                U_fr_chunk_no = 128,
                U_total_fr_chunks = (if total_frames div 128 = 0 then 1 else total_frames div 128),
                U_frame_chunk_unix_times = [], U_cache = Map.empty \<rparr>"
  from assms(2) obtain r where l: "loadChunk_uwovid ops None ?s = Inr (r, s0)"
    by (auto simp: init_uwovid_def Let_def split: sum.splits list.splits if_splits)
  have "U_cache ?s (cache_key None (U_current_frame_chunk ?s)) = None" by simp
  from loadChunk_uwovid_miss [OF this l]
  have "U_total_fr_chunks s0 = U_total_fr_chunks ?s" by auto
  then show ?thesis using clamp_max [OF assms(1), of 128] by simp
qed

lemma init_images_chunks:
  assumes "init_images imread ops names rows cols = Inr s0"
  shows "I_total_fr_chunks s0 = max 1 (int (length names) div 64) \<and>
         I_total_frames s0 = int (length names) \<and> I_img_list s0 = sort names \<and> names \<noteq> []"
proof -
  let ?t = "int (length names)"
  let ?s = "\<lparr> I_img_list = sort names, I_current_frame_chunk = 0, I_total_frames = ?t,
                I_current_frame = 0, I_current_img_file = sort names ! 0,
                I_nrows = rows, I_ncols = cols, I_fr_chunk_no = 64,
                I_current_fr_chunk_size = 64,
                I_total_fr_chunks = (if ?t div 64 = 0 then 1 else ?t div 64),
                I_cache = Map.empty \<rparr>"
  from assms have ne: "names \<noteq> []"
    by (auto simp: init_images_def Let_def split: if_splits)
  then have "sort names \<noteq> []"
    by (metis length_0_conv length_sort)
  with assms have "(case loadChunk_images imread ops None ?s of
                      Inl e \<Rightarrow> Inl e | Inr (ff, s') \<Rightarrow> Inr s') = Inr s0"
    by (simp add: init_images_def Let_def)
  then obtain ff where l: "loadChunk_images imread ops None ?s = Inr (ff, s0)"
    by (auto split: sum.splits)
  have "I_cache ?s (cache_key None (I_current_frame_chunk ?s)) = None" by simp
  from loadChunk_images_miss [OF this l]
  have "I_total_fr_chunks s0 = I_total_fr_chunks ?s" "I_total_frames s0 = ?t"
       "I_img_list s0 = sort names" by auto
  then show ?thesis using clamp_max [of ?t 64] ne by simp
qed

subsection \<open>The number of chunks along a call sequence\<close>

lemma run_video_const:
  assumes "run (step_video ops) cs s = Inr s'"
  shows "V_total_fr_chunks s' = V_total_fr_chunks s \<and> V_fr_chunk_no s' = V_fr_chunk_no s \<and> V_total_frames s' = V_total_frames s"
proof (rule run_invariant [where step = "step_video ops" and s = s and cs = cs
        and P = "\<lambda>x. V_total_fr_chunks x = V_total_fr_chunks s \<and> V_fr_chunk_no x = V_fr_chunk_no s \<and> V_total_frames x = V_total_frames s"])
  fix c x x'
  assume "V_total_fr_chunks x = V_total_fr_chunks s \<and> V_fr_chunk_no x = V_fr_chunk_no s \<and> V_total_frames x = V_total_frames s" and "step_video ops c x = Inr x'"
  then show "V_total_fr_chunks x' = V_total_fr_chunks s \<and> V_fr_chunk_no x' = V_fr_chunk_no s \<and> V_total_frames x' = V_total_frames s"
    using step_video_const [of ops c x x'] by simp
qed (use assms in simp_all)

lemma run_uwovid_const:
  assumes "run (step_uwovid ops) cs s = Inr s'"
  shows "U_total_fr_chunks s' = U_total_fr_chunks s \<and> U_fr_chunk_no s' = U_fr_chunk_no s \<and> U_total_frames s' = U_total_frames s"
proof (rule run_invariant [where step = "step_uwovid ops" and s = s and cs = cs
        and P = "\<lambda>x. U_total_fr_chunks x = U_total_fr_chunks s \<and> U_fr_chunk_no x = U_fr_chunk_no s \<and> U_total_frames x = U_total_frames s"])
  fix c x x'
  assume "U_total_fr_chunks x = U_total_fr_chunks s \<and> U_fr_chunk_no x = U_fr_chunk_no s \<and> U_total_frames x = U_total_frames s" and "step_uwovid ops c x = Inr x'"
  then show "U_total_fr_chunks x' = U_total_fr_chunks s \<and> U_fr_chunk_no x' = U_fr_chunk_no s \<and> U_total_frames x' = U_total_frames s"
    using step_uwovid_const [of ops c x x'] by simp
qed (use assms in simp_all)

lemma run_images_const:
  assumes "run (step_images imread ops) cs s = Inr s'"
  shows "I_total_fr_chunks s' = I_total_fr_chunks s \<and> I_fr_chunk_no s' = I_fr_chunk_no s \<and> I_total_frames s' = I_total_frames s \<and> I_img_list s' = I_img_list s"
proof (rule run_invariant [where step = "step_images imread ops" and s = s and cs = cs
        and P = "\<lambda>x. I_total_fr_chunks x = I_total_fr_chunks s \<and> I_fr_chunk_no x = I_fr_chunk_no s \<and> I_total_frames x = I_total_frames s \<and> I_img_list x = I_img_list s"])
  fix c x x'
  assume "I_total_fr_chunks x = I_total_fr_chunks s \<and> I_fr_chunk_no x = I_fr_chunk_no s \<and> I_total_frames x = I_total_frames s \<and> I_img_list x = I_img_list s" and "step_images imread ops c x = Inr x'"
  then show "I_total_fr_chunks x' = I_total_fr_chunks s \<and> I_fr_chunk_no x' = I_fr_chunk_no s \<and> I_total_frames x' = I_total_frames s \<and> I_img_list x' = I_img_list s"
    using step_images_const [of imread ops c x x'] by simp
qed (use assms in simp_all)

lemma run_ff_const:
  assumes "run (step_ff readFF f2d) cs s = Inr s'"
  shows "F_ff_list s' = F_ff_list s"
proof (rule run_invariant [where step = "step_ff readFF f2d" and s = s and cs = cs
        and P = "\<lambda>x. F_ff_list x = F_ff_list s"])
  fix c x x'
  assume "F_ff_list x = F_ff_list s" and "step_ff readFF f2d c x = Inr x'"
  then show "F_ff_list x' = F_ff_list s"
    using step_ff_const [of readFF f2d c x x'] by simp
qed (use assms in simp_all)

lemma init_ff_list:
  assumes "names \<noteq> []"
  shows "\<exists>s0. init_ff readFF f2d names = Inr s0 \<and> F_ff_list s0 = sort names"
proof -
  have "sort names \<noteq> []" using assms by (metis length_0_conv length_sort)
  then show ?thesis using assms
    by (simp add: init_ff_def Let_def loadChunk_ff_def)
qed

subsection \<open>The cache along a call sequence\<close>

lemma step_video_cache:
  assumes "step_video ops c s = Inr s'"
  shows "V_cache s' = V_cache s \<or> (\<exists>k ff. V_cache s' = [k \<mapsto> ff])"
proof (cases c)
  case (LoadChunk n)
  with assms obtain ff where l: "loadChunk_video ops n s = Inr (ff, s')"
    by (cases "loadChunk_video ops n s") auto
  show ?thesis
  proof (cases "V_cache s (cache_key n (V_current_frame_chunk s))")
    case None
    from loadChunk_video_miss [OF None l]
    have "V_cache s' = [cache_key n (V_current_frame_chunk s) \<mapsto> ff]" by auto
    then show ?thesis by blast
  next
    case (Some a)
    with l loadChunk_video_hit [OF Some, of ops] show ?thesis by simp
  qed
qed (use assms in \<open>auto simp: nextChunk_video_def prevChunk_video_def nextFrame_video_def
      prevFrame_video_def split: sum.splits\<close>)

lemma step_images_cache:
  assumes "step_images imread ops c s = Inr s'"
  shows "I_cache s' = I_cache s \<or> (\<exists>k ff. I_cache s' = [k \<mapsto> ff])"
proof (cases c)
  case (LoadChunk n)
  with assms obtain ff where l: "loadChunk_images imread ops n s = Inr (ff, s')"
    by (cases "loadChunk_images imread ops n s") auto
  show ?thesis
  proof (cases "I_cache s (cache_key n (I_current_frame_chunk s))")
    case None
    from loadChunk_images_miss [OF None l]
    have "I_cache s' = [cache_key n (I_current_frame_chunk s) \<mapsto> ff]" by auto
    then show ?thesis by blast
  next
    case (Some a)
    with l loadChunk_images_hit [OF Some, of imread ops] show ?thesis by simp
  qed
qed (use assms in \<open>auto simp: nextChunk_images_def prevChunk_images_def nextFrame_images_def
      prevFrame_images_def split: sum.splits\<close>)

lemma step_uwovid_cache:
  assumes "step_uwovid ops c s = Inr s'"
  shows "U_cache s' = U_cache s \<or> (\<exists>k e. U_cache s' = [k \<mapsto> e])"
proof (cases c)
  case (LoadChunk n)
  with assms obtain r where l: "loadChunk_uwovid ops n s = Inr (r, s')"
    by (cases "loadChunk_uwovid ops n s") auto
  show ?thesis
  proof (cases "U_cache s (cache_key n (U_current_frame_chunk s))")
    case None
    from loadChunk_uwovid_miss [OF None l]
    obtain e where "U_cache s' = [cache_key n (U_current_frame_chunk s) \<mapsto> e]" by auto
    then show ?thesis by blast
  next
    case (Some a)
    obtain ff uts where a: "a = (ff, uts)" by (cases a)
    show ?thesis
    proof (cases "n = Some (- 1)")
      case True
      with Some a l loadChunk_uwovid_hit_all [of s ff uts ops] show ?thesis
        by (simp add: cache_key_def)
    next
      case False
      with Some a l loadChunk_uwovid_hit_chunk [of n s ff uts ops] show ?thesis
        by (auto simp: cache_key_def)
    qed
  qed
qed (use assms in \<open>auto simp: nextChunk_uwovid_def prevChunk_uwovid_def nextFrame_uwovid_def
      prevFrame_uwovid_def split: sum.splits\<close>)

lemma step_ff_cache:
  assumes "step_ff readFF f2d c s = Inr s'"
  shows "F_cache s' = F_cache s \<or> (\<exists>k ff. F_cache s' = [k \<mapsto> ff])"
proof (cases c)
  case (LoadChunk n)
  show ?thesis
  proof (cases "F_cache s (F_current_ff_file s)")
    case None
    with assms LoadChunk
    have "F_cache s' = [F_current_ff_file s \<mapsto> readFF (F_current_ff_file s)]"
      by (auto simp: loadChunk_ff_miss)
    then show ?thesis by blast
  next
    case (Some a)
    with assms LoadChunk show ?thesis by (auto simp: loadChunk_ff_hit)
  qed
qed (use assms in \<open>auto simp: nextChunk_ff_def prevChunk_ff_def nextFrame_ff_def
      prevFrame_ff_def split: sum.splits option.splits\<close>)

lemma at_most_one_step:
  assumes "\<exists>k. dom m \<subseteq> {k}" and "m' = m \<or> (\<exists>k v. m' = [k \<mapsto> v])"
  shows "\<exists>k. dom m' \<subseteq> {k}"
  using assms(2)
proof
  assume "m' = m"
  with assms(1) show ?thesis by simp
next
  assume "\<exists>k v. m' = [k \<mapsto> v]"
  then obtain k v where "m' = [k \<mapsto> v]" by blast
  then have "dom m' \<subseteq> {k}" by simp
  then show ?thesis ..
qed

lemma run_video_cache:
  assumes "\<exists>k. dom (V_cache s) \<subseteq> {k}" "run (step_video ops) cs s = Inr s'"
  shows "\<exists>k. dom (V_cache s') \<subseteq> {k}"
proof (rule run_invariant [where step = "step_video ops" and s = s and cs = cs
        and P = "\<lambda>x. \<exists>k. dom (V_cache x) \<subseteq> {k}"])
  fix c x x'
  assume inv: "\<exists>k. dom (V_cache x) \<subseteq> {k}" and st: "step_video ops c x = Inr x'"
  show "\<exists>k. dom (V_cache x') \<subseteq> {k}"
    by (rule at_most_one_step [OF inv step_video_cache [OF st]])
qed (use assms in simp_all)

lemma run_images_cache:
  assumes "\<exists>k. dom (I_cache s) \<subseteq> {k}" "run (step_images imread ops) cs s = Inr s'"
  shows "\<exists>k. dom (I_cache s') \<subseteq> {k}"
proof (rule run_invariant [where step = "step_images imread ops" and s = s and cs = cs
        and P = "\<lambda>x. \<exists>k. dom (I_cache x) \<subseteq> {k}"])
  fix c x x'
  assume inv: "\<exists>k. dom (I_cache x) \<subseteq> {k}" and st: "step_images imread ops c x = Inr x'"
  show "\<exists>k. dom (I_cache x') \<subseteq> {k}"
    by (rule at_most_one_step [OF inv step_images_cache [OF st]])
qed (use assms in simp_all)

lemma run_uwovid_cache:
  assumes "\<exists>k. dom (U_cache s) \<subseteq> {k}" "run (step_uwovid ops) cs s = Inr s'"
  shows "\<exists>k. dom (U_cache s') \<subseteq> {k}"
proof (rule run_invariant [where step = "step_uwovid ops" and s = s and cs = cs
        and P = "\<lambda>x. \<exists>k. dom (U_cache x) \<subseteq> {k}"])
  fix c x x'
  assume inv: "\<exists>k. dom (U_cache x) \<subseteq> {k}" and st: "step_uwovid ops c x = Inr x'"
  show "\<exists>k. dom (U_cache x') \<subseteq> {k}"
    by (rule at_most_one_step [OF inv step_uwovid_cache [OF st]])
qed (use assms in simp_all)

lemma run_ff_cache:
  assumes "\<exists>k. dom (F_cache s) \<subseteq> {k}" "run (step_ff readFF f2d) cs s = Inr s'"
  shows "\<exists>k. dom (F_cache s') \<subseteq> {k}"
proof (rule run_invariant [where step = "step_ff readFF f2d" and s = s and cs = cs
        and P = "\<lambda>x. \<exists>k. dom (F_cache x) \<subseteq> {k}"])
  fix c x x'
  assume inv: "\<exists>k. dom (F_cache x) \<subseteq> {k}" and st: "step_ff readFF f2d c x = Inr x'"
  show "\<exists>k. dom (F_cache x') \<subseteq> {k}"
    by (rule at_most_one_step [OF inv step_ff_cache [OF st]])
qed (use assms in simp_all)

lemma init_video_cache: "V_cache (init_video frames t rows cols) = Map.empty"
  by (simp add: init_video_def Let_def)

lemma init_uwovid_cache:
  assumes "init_uwovid ops records t rows cols = Inr s0"
  shows "\<exists>e. U_cache s0 = [0 \<mapsto> e]"
proof -
  let ?s = "\<lparr> U_vid_file = \<lparr>vid_records = records, vid_pos = 0\<rparr>,
                U_current_frame_chunk = 0, U_current_frame = 0, U_current_fr_chunk_size = 0,
                U_total_frames = t, U_nrows = rows, U_ncols = cols,
                U_fr_chunk_no = 128,
                U_total_fr_chunks = (if t div 128 = 0 then 1 else t div 128),
                U_frame_chunk_unix_times = [], U_cache = Map.empty \<rparr>"
  from assms obtain r where l: "loadChunk_uwovid ops None ?s = Inr (r, s0)"
    by (auto simp: init_uwovid_def Let_def split: sum.splits list.splits if_splits)
  have "U_cache ?s (cache_key None (U_current_frame_chunk ?s)) = None" by simp
  from loadChunk_uwovid_miss [OF this l]
  obtain e where "U_cache s0 = [0 \<mapsto> e]" by (auto simp: cache_key_def)
  then show ?thesis ..
qed

lemma init_images_cache:
  assumes "init_images imread ops names rows cols = Inr s0"
  shows "\<exists>ff. I_cache s0 = [0 \<mapsto> ff]"
proof -
  let ?t = "int (length names)"
  let ?s = "\<lparr> I_img_list = sort names, I_current_frame_chunk = 0, I_total_frames = ?t,
                I_current_frame = 0, I_current_img_file = sort names ! 0,
                I_nrows = rows, I_ncols = cols, I_fr_chunk_no = 64,
                I_current_fr_chunk_size = 64,
                I_total_fr_chunks = (if ?t div 64 = 0 then 1 else ?t div 64),
                I_cache = Map.empty \<rparr>"
  from assms have ne: "names \<noteq> []"
    by (auto simp: init_images_def Let_def split: if_splits)
  then have "sort names \<noteq> []"
    by (metis length_0_conv length_sort)
  with assms have "(case loadChunk_images imread ops None ?s of
                      Inl e \<Rightarrow> Inl e | Inr (ff, s') \<Rightarrow> Inr s') = Inr s0"
    by (simp add: init_images_def Let_def)
  then obtain ff where l: "loadChunk_images imread ops None ?s = Inr (ff, s0)"
    by (auto split: sum.splits)
  have "I_cache ?s (cache_key None (I_current_frame_chunk ?s)) = None" by simp
  from loadChunk_images_miss [OF this l]
  have "I_cache s0 = [0 \<mapsto> ff]" by (auto simp: cache_key_def)
  then show ?thesis ..
qed

lemma init_ff_cache:
  assumes "init_ff readFF f2d names = Inr s0"
  shows "\<exists>k ff. F_cache s0 = [k \<mapsto> ff]"
proof -
  from assms have "names \<noteq> []" by (auto simp: init_ff_def split: if_splits)
  with assms have "F_cache s0 = [sort names ! 0 \<mapsto> readFF (sort names ! 0)]"
    by (auto simp: init_ff_def Let_def loadChunk_ff_def)
  then show ?thesis by blast
qed

lemma nextChunk_video_example:
  "nextChunk_video example_video_loaded = Inr example_video_loaded"
  by (simp add: nextChunk_video_def py_mod_def example_video_loaded_def)

lemma run_video_example:
  "run (step_video exact_ops) [LoadChunk None, NextChunk] example_video =
     Inr example_video_loaded"
  by (simp add: loadChunk_video_example nextChunk_video_example)

lemma loadChunk_video_all_example:
  "loadChunk_video exact_ops (Some (- 1)) example_video =
     Inr (\<lparr>maxpixel = [8], avepixel = [4], nrows = 1, ncols = 1, nframes = 4\<rparr>,
          example_video_loaded\<lparr>V_cache :=
            [- 1 \<mapsto> \<lparr>maxpixel = [8], avepixel = [4], nrows = 1, ncols = 1, nframes = 4\<rparr>]\<rparr>)"
  by (simp add: example_video_def init_video_def eval_video example_video_loaded_def)

lemma loadChunk_uwovid_all_example:
  "loadChunk_uwovid exact_ops (Some (- 1)) example_uwovid =
     Inr (Struct \<lparr>maxpixel = [7], avepixel = [6], nrows = 1, ncols = 1, nframes = 2\<rparr>,
          example_uwovid\<lparr>U_cache :=
            [- 1 \<mapsto> (\<lparr>maxpixel = [7], avepixel = [6], nrows = 1, ncols = 1, nframes = 2\<rparr>,
                       [0, 1])]\<rparr>)"
  by (simp add: eval_uwovid example_uwovid_def)

lemma loadChunk_images_all_example:
  "loadChunk_images example_imread exact_ops (Some (- 1)) example_images =
     Inr (\<lparr>maxpixel = [1], avepixel = [0], nrows = 1, ncols = 1, nframes = 2\<rparr>,
          example_images\<lparr>I_cache :=
            [- 1 \<mapsto> \<lparr>maxpixel = [1], avepixel = [0], nrows = 1, ncols = 1, nframes = 2\<rparr>]\<rparr>)"
  by (simp add: eval_images example_images_def example_imread_def)

subsection \<open>The aggregates pixel by pixel\<close>

lemma length_max_step: "length frame = length mx \<Longrightarrow> length (max_step mx frame) = length mx"
  by (simp add: max_step_def)

lemma length_ave_step: "length frame = length av \<Longrightarrow> length (ave_step ops ftr av frame) = length av"
  by (simp add: ave_step_def)

lemma foldl_max_step_nth:
  assumes "\<forall>f \<in> set fs. length f = length mx" "j < length mx"
  shows "length (foldl max_step mx fs) = length mx \<and>
         foldl max_step mx fs ! j = foldl (\<lambda>m f. max m (f ! j)) (mx ! j) fs"
  using assms
proof (induction fs arbitrary: mx)
  case Nil
  show ?case by simp
next
  case (Cons f fs)
  have l: "length (max_step mx f) = length mx"
    using Cons.prems by (simp add: length_max_step)
  have n: "max_step mx f ! j = max (mx ! j) (f ! j)"
    using Cons.prems by (simp add: max_step_def)
  have "\<forall>g \<in> set fs. length g = length (max_step mx f)" "j < length (max_step mx f)"
    using Cons.prems l by simp_all
  from Cons.IH [OF this] show ?case by (simp add: l n)
qed

lemma foldl_ave_step_nth:
  assumes "\<forall>f \<in> set fs. length f = length av" "j < length av"
  shows "length (foldl (ave_step ops ftr) av fs) = length av \<and>
         foldl (ave_step ops ftr) av fs ! j =
           foldl (\<lambda>a f. f_add ops a (f_div ops (f_of_int ops (uint (f ! j))) (f_of_int ops ftr)))
             (av ! j) fs"
  using assms
proof (induction fs arbitrary: av)
  case Nil
  show ?case by simp
next
  case (Cons f fs)
  have l: "length (ave_step ops ftr av f) = length av"
    using Cons.prems by (simp add: length_ave_step)
  have n: "ave_step ops ftr av f ! j =
           f_add ops (av ! j) (f_div ops (f_of_int ops (uint (f ! j))) (f_of_int ops ftr))"
    using Cons.prems by (simp add: ave_step_def)
  have "\<forall>g \<in> set fs. length g = length (ave_step ops ftr av f)"
       "j < length (ave_step ops ftr av f)"
    using Cons.prems l by simp_all
  from Cons.IH [OF this] show ?case by (simp add: l n)
qed

lemma foldl_max_Max:
  fixes m :: "'a::linorder"
  shows "foldl (\<lambda>m f. max m (g f)) m fs = Max (insert m (g ` set fs))"
proof (induction fs arbitrary: m)
  case Nil
  show ?case by simp
next
  case (Cons f fs)
  have "Max (insert (max m (g f)) (g ` set fs)) = Max (insert m (insert (g f) (g ` set fs)))"
  proof (cases "g ` set fs = {}")
    case True
    then show ?thesis by (simp add: max.commute)
  next
    case False
    then show ?thesis by (simp add: max.assoc)
  qed
  with Cons.IH [of "max m (g f)"] show ?case by simp
qed

lemma word_Max_zero:
  fixes S :: "'a::len word set"
  assumes "finite S" "S \<noteq> {}"
  shows "Max (insert 0 S) = Max S"
proof -
  have "max 0 (Max S) = Max S" by (simp add: max_def)
  then show ?thesis using assms by simp
qed

subsection \<open>loadChunk of the video adapter when it aggregates\<close>

lemma window_cap_set:
  "window (cap_set (V_cap s) (if n = Some (- 1) then 0 else V_current_frame_chunk s * V_fr_chunk_no s))
     (nat (video_frames_to_read n s)) = video_window n s"
  by (simp add: window_def cap_set_def video_window_def video_start_def)

lemma loadChunk_video_unbound:
  assumes "V_cache s (cache_key n (V_current_frame_chunk s)) = None"
    and "video_frames_to_read n s \<le> 0"
  shows "loadChunk_video ops n s = Inl UnboundLocalError"
  using assms
  by (auto simp: loadChunk_video_def cache_key_def Let_def video_frames_to_read_def)

lemma loadChunk_video_aggregates:
  assumes miss: "V_cache s (cache_key n (V_current_frame_chunk s)) = None"
    and pos: "0 < video_frames_to_read n s"
  shows "\<exists>ff s'. loadChunk_video ops n s = Inr (ff, s') \<and>
     maxpixel ff = foldl max_step (replicate (V_nrows s * V_ncols s) 0) (video_window n s) \<and>
     avepixel ff = ave_cast ops (foldl (ave_step ops (video_frames_to_read n s))
                     (replicate (V_nrows s * V_ncols s) (f_of_int ops 0)) (video_window n s)) \<and>
     nrows ff = V_nrows s \<and> ncols ff = V_ncols s \<and> nframes ff = V_total_frames s \<and>
     V_current_fr_chunk_size s' =
       (if length (video_window n s) < nat (video_frames_to_read n s)
        then int (length (video_window n s)) + 1 else video_frames_to_read n s) \<and>
     V_cache s' = [cache_key n (V_current_frame_chunk s) \<mapsto> ff] \<and>
     V_current_frame_chunk s' = V_current_frame_chunk s \<and>
     V_current_frame s' = V_current_frame s"
proof -
  let ?k = "nat (video_frames_to_read n s)"
  have k: "?k \<noteq> 0" using pos by simp
  have ik: "int ?k = video_frames_to_read n s" using pos by simp
  show ?thesis
  proof (cases "n = Some (- 1)")
    case True
    with miss have c: "V_cache s (- 1) = None" by (simp add: cache_key_def)
    have w: "window (cap_set (V_cap s) 0) ?k = video_window n s"
      using window_cap_set [of s n] True by simp
    show ?thesis
      using True c k w ik
      by (simp add: loadChunk_video_def Let_def video_loop_eq cache_key_def
          video_frames_to_read_def [symmetric])
  next
    case False
    with miss have c: "V_cache s (V_current_frame_chunk s) = None" by (simp add: cache_key_def)
    have w: "window (cap_set (V_cap s) (V_current_frame_chunk s * V_fr_chunk_no s)) ?k =
             video_window n s"
      using window_cap_set [of s n] False by simp
    show ?thesis
      using False c k w ik
      by (simp add: loadChunk_video_def Let_def video_loop_eq cache_key_def
          video_frames_to_read_def [symmetric])
  qed
qed

lemma video_example_window:
  "video_frames_to_read None example_video = 4 \<and> video_window None example_video = [[8], [8]]"
  by (simp add: video_frames_to_read_def video_window_def video_start_def
      computeFramesToRead_def example_video_def init_video_def)

subsection \<open>A video of 600 frames\<close>

lemma init_video_600:
  "init_video frames 600 rows cols =
     \<lparr> V_cap = \<lparr>cap_frames = frames, cap_pos = 0\<rparr>, V_current_frame_chunk = 0,
       V_total_frames = 600, V_nrows = rows, V_ncols = cols, V_fr_chunk_no = 256,
       V_total_fr_chunks = 2, V_current_fr_chunk_size = 256, V_current_frame = 0,
       V_cache = Map.empty \<rparr>"
  by (simp add: init_video_def)

lemma video_600_second_chunk:
  "nextChunk_video (init_video frames 600 rows cols) =
     Inr ((init_video frames 600 rows cols)\<lparr>V_current_frame_chunk := 1, V_current_frame := 256\<rparr>)"
  by (simp add: init_video_600 nextChunk_video_def py_mod_def)

lemma video_600_default_size:
  assumes "length frames = 600"
  shows "\<exists>ff s'. loadChunk_video ops None
            ((init_video frames 600 rows cols)\<lparr>V_current_frame_chunk := 1, V_current_frame := 256\<rparr>) =
              Inr (ff, s') \<and> V_current_fr_chunk_size s' = 256"
proof -
  let ?s = "(init_video frames 600 rows cols)\<lparr>V_current_frame_chunk := 1, V_current_frame := 256\<rparr>"
  have f: "video_frames_to_read None ?s = 256"
    by (simp add: video_frames_to_read_def computeFramesToRead_def init_video_600)
  have w: "length (video_window None ?s) = 256"
    unfolding video_window_def f
    using assms by (simp add: video_start_def init_video_600)
  have m: "V_cache ?s (cache_key None (V_current_frame_chunk ?s)) = None"
    by (simp add: init_video_600)
  have p: "0 < video_frames_to_read None ?s" by (simp add: f)
  from loadChunk_video_aggregates [OF m p, of ops] show ?thesis
    by (auto simp: f w)
qed

lemma video_600_all_size:
  assumes "length frames = 600"
  shows "\<exists>ff s'. loadChunk_video ops (Some (- 1)) (init_video frames 600 rows cols) =
              Inr (ff, s') \<and> V_current_fr_chunk_size s' = 600"
proof -
  let ?s = "init_video frames 600 rows cols"
  have f: "video_frames_to_read (Some (- 1)) ?s = 600"
    by (simp add: video_frames_to_read_def computeFramesToRead_def init_video_600)
  have w: "length (video_window (Some (- 1)) ?s) = 600"
    unfolding video_window_def f
    using assms by (simp add: video_start_def init_video_600)
  have m: "V_cache ?s (cache_key (Some (- 1)) (V_current_frame_chunk ?s)) = None"
    by (simp add: init_video_600)
  have p: "0 < video_frames_to_read (Some (- 1)) ?s" by (simp add: f)
  from loadChunk_video_aggregates [OF m p, of ops] show ?thesis
    by (auto simp: f w)
qed

lemma frames_to_read_valid_chunk:
  assumes "0 < L" "0 \<le> T" "0 \<le> c" "c < max 1 (T div L)"
  shows "computeFramesToRead None T L c = min L T \<and> c * L + min L T \<le> T"
proof (cases "L \<le> T")
  case True
  then have "0 < T div L" using assms(1) by (simp add: pos_imp_zdiv_pos_iff)
  then have "1 \<le> T div L" by simp
  with assms(4) have "c + 1 \<le> T div L" by simp
  then have "(c + 1) * L \<le> T div L * L" using assms(1) by simp
  also have "\<dots> \<le> T"
  proof -
    have "T = T div L * L + T mod L" by simp
    moreover have "0 \<le> T mod L" using assms(1) by simp
    ultimately show ?thesis by linarith
  qed
  finally have le: "(c + 1) * L \<le> T" .
  then have "c * L + L \<le> T" by (simp add: algebra_simps)
  with le True show ?thesis by (simp add: computeFramesToRead_def min_def)
next
  case False
  then have "T div L = 0" using assms(1,2) by (simp add: div_pos_pos_trivial)
  with assms(3,4) have c: "c = 0" by simp
  with False show ?thesis by (simp add: computeFramesToRead_def min_def)
qed

lemma video_600_default_size_example:
  "map_sum id (V_current_fr_chunk_size \<circ> snd)
     (loadChunk_video exact_ops None
        ((init_video (replicate 600 [8::8 word]) 600 1 1)\<lparr>V_current_frame_chunk := 1,
           V_current_frame := 256\<rparr>)) = Inr 256"
proof -
  have "length (replicate 600 [8::8 word]) = 600" by simp
  from video_600_default_size [OF this, of exact_ops 1 1]
  obtain ff s' where "loadChunk_video exact_ops None
        ((init_video (replicate 600 [8::8 word]) 600 1 1)\<lparr>V_current_frame_chunk := 1,
           V_current_frame := 256\<rparr>) = Inr (ff, s')" "V_current_fr_chunk_size s' = 256"
    by blast
  then show ?thesis by simp
qed

subsection \<open>A second loadChunk call without navigation\<close>

lemma loadChunk_ff_twice:
  assumes "loadChunk_ff readFF n s = Inr (ff, s')"
  shows "loadChunk_ff readFF m s' = Inr (ff, s')"
proof (cases "F_cache s (F_current_ff_file s)")
  case None
  with assms show ?thesis by (auto simp: loadChunk_ff_miss loadChunk_ff_hit)
next
  case (Some a)
  with assms show ?thesis by (auto simp: loadChunk_ff_hit)
qed

lemma loadChunk_video_twice:
  assumes "loadChunk_video ops n s = Inr (ff, s')"
  shows "loadChunk_video ops n s' = Inr (ff, s')"
proof (cases "V_cache s (cache_key n (V_current_frame_chunk s))")
  case None
  from loadChunk_video_miss [OF None assms]
  have "V_cache s' (cache_key n (V_current_frame_chunk s')) = Some ff"
    by (auto simp: cache_key_def)
  then show ?thesis by (rule loadChunk_video_hit)
next
  case (Some a)
  with assms loadChunk_video_hit [OF Some, of ops] show ?thesis by simp
qed

lemma loadChunk_images_twice:
  assumes "loadChunk_images imread ops n s = Inr (ff, s')"
  shows "loadChunk_images imread ops n s' = Inr (ff, s')"
proof (cases "I_cache s (cache_key n (I_current_frame_chunk s))")
  case None
  from loadChunk_images_miss [OF None assms]
  have "I_cache s' (cache_key n (I_current_frame_chunk s')) = Some ff"
    by (auto simp: cache_key_def)
  then show ?thesis by (rule loadChunk_images_hit)
next
  case (Some a)
  with assms loadChunk_images_hit [OF Some, of imread ops] show ?thesis by simp
qed

lemma loadChunk_uwovid_twice_chunk:
  assumes "n \<noteq> Some (- 1)" "loadChunk_uwovid ops n s = Inr (r, s')"
  shows "loadChunk_uwovid ops n s' = Inr (r, s')"
proof (cases "U_cache s (cache_key n (U_current_frame_chunk s))")
  case None
  from loadChunk_uwovid_miss [OF None assms(2)]
  obtain ff vf1 uts i where r: "r = Struct ff"
    and s': "s' = s\<lparr>U_vid_file := vf1, U_frame_chunk_unix_times := uts,
                  U_current_fr_chunk_size := i,
                  U_cache := [cache_key n (U_current_frame_chunk s) \<mapsto> (ff, uts)]\<rparr>"
    by blast
  have c: "U_cache s' (U_current_frame_chunk s') = Some (ff, uts)"
    using s' assms(1) by (simp add: cache_key_def)
  have "s'\<lparr>U_frame_chunk_unix_times := uts\<rparr> = s'" using s' by simp
  with loadChunk_uwovid_hit_chunk [OF assms(1) c, of ops] r show ?thesis by simp
next
  case (Some a)
  obtain ff uts where a: "a = (ff, uts)" by (cases a)
  with Some assms(1) have c: "U_cache s (U_current_frame_chunk s) = Some (ff, uts)"
    by (simp add: cache_key_def)
  from loadChunk_uwovid_hit_chunk [OF assms(1) c, of ops] assms(2)
  have r: "r = Struct ff" and s': "s' = s\<lparr>U_frame_chunk_unix_times := uts\<rparr>" by simp_all
  have c': "U_cache s' (U_current_frame_chunk s') = Some (ff, uts)" using c s' by simp
  have "s'\<lparr>U_frame_chunk_unix_times := uts\<rparr> = s'" using s' by simp
  with loadChunk_uwovid_hit_chunk [OF assms(1) c', of ops] r show ?thesis by simp
qed

subsection \<open>The aggregation loop of the vid adapter\<close>

lemma uwovid_loop_eq:
  "uwovid_loop ops ftr k i vf mx av uts li =
     (if length (take k (drop (vid_pos vf) (vid_records vf))) < k then Inl AttributeError
      else Inr (vf\<lparr>vid_pos := vid_pos vf + k\<rparr>,
                foldl max_step mx (map fst (take k (drop (vid_pos vf) (vid_records vf)))),
                foldl (ave_step ops ftr) av (map fst (take k (drop (vid_pos vf) (vid_records vf)))),
                uts @ map snd (take k (drop (vid_pos vf) (vid_records vf))),
                if k = 0 then li else Some (i + int k - 1)))"
proof (induction k arbitrary: i vf mx av uts li)
  case 0
  show ?case by simp
next
  case (Suc k)
  show ?case
  proof (cases "vid_pos vf < length (vid_records vf)")
    case True
    let ?vf' = "vf\<lparr>vid_pos := vid_pos vf + 1\<rparr>"
    obtain frame t where ft: "vid_records vf ! vid_pos vf = (frame, t)"
      by (cases "vid_records vf ! vid_pos vf")
    have r: "readVidFrame vf = (Some (frame, t), ?vf')"
      using True ft by (simp add: readVidFrame_def)
    have w: "take (Suc k) (drop (vid_pos vf) (vid_records vf)) =
             (frame, t) # take k (drop (vid_pos ?vf') (vid_records ?vf'))"
      using True ft by (simp add: Cons_nth_drop_Suc [symmetric])
    show ?thesis
      unfolding w by (simp add: r Suc.IH)
  next
    case False
    then have r: "readVidFrame vf = (None, vf)" by (simp add: readVidFrame_def)
    from False show ?thesis by (simp add: r)
  qed
qed

lemma uwovid_window_seek:
  "take (nat (uwovid_frames_to_read n s))
     (drop (vid_pos (vid_seek (U_vid_file s)
                       (if n = Some (- 1) then 0 else U_current_frame_chunk s * U_fr_chunk_no s)))
        (vid_records (vid_seek (U_vid_file s)
                       (if n = Some (- 1) then 0 else U_current_frame_chunk s * U_fr_chunk_no s)))) =
   uwovid_window n s"
  by (simp add: vid_seek_def uwovid_window_def uwovid_start_def)

lemma loadChunk_uwovid_truncated:
  assumes miss: "U_cache s (cache_key n (U_current_frame_chunk s)) = None"
    and short: "length (uwovid_window n s) < nat (uwovid_frames_to_read n s)"
  shows "loadChunk_uwovid ops n s = Inl AttributeError"
proof (cases "n = Some (- 1)")
  case True
  with miss have c: "U_cache s (- 1) = None" by (simp add: cache_key_def)
  from uwovid_window_seek [of n s] True short
  have "length (take (nat (uwovid_frames_to_read n s))
           (drop (vid_pos (vid_seek (U_vid_file s) 0)) (vid_records (vid_seek (U_vid_file s) 0)))) <
        nat (uwovid_frames_to_read n s)"
    by simp
  with True c show ?thesis
    by (simp add: loadChunk_uwovid_def Let_def uwovid_loop_eq
        uwovid_frames_to_read_def [symmetric] del: length_take)
next
  case False
  with miss have c: "U_cache s (U_current_frame_chunk s) = None" by (simp add: cache_key_def)
  from uwovid_window_seek [of n s] False short
  have "length (take (nat (uwovid_frames_to_read n s))
           (drop (vid_pos (vid_seek (U_vid_file s) (U_current_frame_chunk s * U_fr_chunk_no s)))
              (vid_records (vid_seek (U_vid_file s) (U_current_frame_chunk s * U_fr_chunk_no s))))) <
        nat (uwovid_frames_to_read n s)"
    by simp
  with False c show ?thesis
    by (simp add: loadChunk_uwovid_def Let_def uwovid_loop_eq
        uwovid_frames_to_read_def [symmetric] del: length_take)
qed

lemma loadChunk_uwovid_aggregates:
  assumes miss: "U_cache s (cache_key n (U_current_frame_chunk s)) = None"
    and pos: "0 < uwovid_frames_to_read n s"
    and full: "length (uwovid_window n s) = nat (uwovid_frames_to_read n s)"
  shows "\<exists>ff s'. loadChunk_uwovid ops n s = Inr (Struct ff, s') \<and>
     maxpixel ff = foldl max_step (replicate (U_nrows s * U_ncols s) 0)
                     (map fst (uwovid_window n s)) \<and>
     avepixel ff = ave_cast ops (foldl (ave_step ops (uwovid_frames_to_read n s))
                     (replicate (U_nrows s * U_ncols s) (f_of_int ops 0))
                     (map fst (uwovid_window n s))) \<and>
     nframes ff = U_total_frames s \<and>
     U_current_fr_chunk_size s' = uwovid_frames_to_read n s \<and>
     U_frame_chunk_unix_times s' = map snd (uwovid_window n s) \<and>
     U_cache s' = [cache_key n (U_current_frame_chunk s) \<mapsto> (ff, map snd (uwovid_window n s))] \<and>
     U_current_frame_chunk s' = U_current_frame_chunk s \<and>
     U_total_fr_chunks s' = U_total_fr_chunks s \<and> U_fr_chunk_no s' = U_fr_chunk_no s \<and>
     U_total_frames s' = U_total_frames s \<and>
     vid_records (U_vid_file s') = vid_records (U_vid_file s)"
proof -
  let ?k = "nat (uwovid_frames_to_read n s)"
  have k: "?k \<noteq> 0" using pos by simp
  have ik: "int ?k = uwovid_frames_to_read n s" using pos by simp
  show ?thesis
  proof (cases "n = Some (- 1)")
    case True
    with miss have c: "U_cache s (- 1) = None" by (simp add: cache_key_def)
    have w: "take (nat (uwovid_frames_to_read (Some (- 1)) s)) (vid_records (U_vid_file s)) =
             uwovid_window (Some (- 1)) s"
      by (simp add: uwovid_window_def uwovid_start_def)
    have nl: "\<not> length (uwovid_window (Some (- 1)) s) < nat (uwovid_frames_to_read (Some (- 1)) s)"
      using full True by simp
    show ?thesis
      using True c k ik nl
      by (simp add: loadChunk_uwovid_def Let_def uwovid_loop_eq cache_key_def w
          uwovid_frames_to_read_def [symmetric] vid_seek_def del: length_take)
  next
    case False
    with miss have c: "U_cache s (U_current_frame_chunk s) = None" by (simp add: cache_key_def)
    have w: "take (nat (uwovid_frames_to_read n s))
               (drop (nat (U_current_frame_chunk s * U_fr_chunk_no s)) (vid_records (U_vid_file s))) =
             uwovid_window n s"
      using False by (simp add: uwovid_window_def uwovid_start_def)
    have nl: "\<not> length (uwovid_window n s) < nat (uwovid_frames_to_read n s)"
      using full by simp
    show ?thesis
      using False c k ik nl
      by (simp add: loadChunk_uwovid_def Let_def uwovid_loop_eq cache_key_def w
          uwovid_frames_to_read_def [symmetric] vid_seek_def del: length_take)
  qed
qed

subsection \<open>The whole source as one window, in the video adapter\<close>

lemma loadChunk_video_all_max:
  assumes miss: "V_cache s (- 1) = None"
    and len: "int (length (cap_frames (V_cap s))) = V_total_frames s"
    and ne: "0 < V_total_frames s"
    and geom: "\<forall>f \<in> set (cap_frames (V_cap s)). length f = V_nrows s * V_ncols s"
    and j: "j < V_nrows s * V_ncols s"
  shows "\<exists>ff s'. loadChunk_video ops (Some (- 1)) s = Inr (ff, s') \<and>
           maxpixel ff ! j = Max ((\<lambda>f. f ! j) ` set (cap_frames (V_cap s))) \<and>
           V_current_fr_chunk_size s' = V_total_frames s"
proof -
  let ?n = "Some (- 1) :: int option"
  let ?z = "replicate (V_nrows s * V_ncols s) (0 :: 'a word)"
  have f: "video_frames_to_read ?n s = V_total_frames s"
    by (simp add: video_frames_to_read_def computeFramesToRead_def)
  have w: "video_window ?n s = cap_frames (V_cap s)"
    using len by (simp add: video_window_def f video_start_def)
  have m: "V_cache s (cache_key ?n (V_current_frame_chunk s)) = None"
    using miss by (simp add: cache_key_def)
  have p: "0 < video_frames_to_read ?n s" using ne by (simp add: f)
  from loadChunk_video_aggregates [OF m p, of ops]
  obtain ff s' where l: "loadChunk_video ops ?n s = Inr (ff, s')"
    and mx: "maxpixel ff = foldl max_step ?z (cap_frames (V_cap s))"
    and sz: "V_current_fr_chunk_size s' = V_total_frames s"
    using len by (auto simp: w f)
  have g: "\<forall>f \<in> set (cap_frames (V_cap s)). length f = length ?z" "j < length ?z"
    using geom j by simp_all
  have fs: "cap_frames (V_cap s) \<noteq> []" using len ne by auto
  have "maxpixel ff ! j = foldl (\<lambda>m f. max m (f ! j)) 0 (cap_frames (V_cap s))"
    using foldl_max_step_nth [OF g] j by (simp add: mx)
  also have "\<dots> = Max (insert 0 ((\<lambda>f. f ! j) ` set (cap_frames (V_cap s))))"
    by (rule foldl_max_Max)
  also have "\<dots> = Max ((\<lambda>f. f ! j) ` set (cap_frames (V_cap s)))"
    using fs by (intro word_Max_zero) simp_all
  finally show ?thesis using l sz by blast
qed

subsection \<open>Requests that reach beyond the end of the source\<close>

lemma video_600_request_345:
  assumes "length frames = 600"
  shows "length (video_window (Some 345)
           ((init_video frames 600 rows cols)\<lparr>V_current_frame_chunk := 1,
              V_current_frame := 256\<rparr>)) = 344 \<and>
         (\<exists>ff s'. loadChunk_video ops (Some 345)
            ((init_video frames 600 rows cols)\<lparr>V_current_frame_chunk := 1,
               V_current_frame := 256\<rparr>) = Inr (ff, s') \<and>
            V_current_fr_chunk_size s' = 345)"
proof -
  let ?s = "(init_video frames 600 rows cols)\<lparr>V_current_frame_chunk := 1, V_current_frame := 256\<rparr>"
  have f: "video_frames_to_read (Some 345) ?s = 345"
    by (simp add: video_frames_to_read_def computeFramesToRead_def init_video_600)
  have w: "length (video_window (Some 345) ?s) = 344"
    unfolding video_window_def f
    using assms by (simp add: video_start_def init_video_600)
  have m: "V_cache ?s (cache_key (Some 345) (V_current_frame_chunk ?s)) = None"
    by (simp add: init_video_600)
  have p: "0 < video_frames_to_read (Some 345) ?s" by (simp add: f)
  from loadChunk_video_aggregates [OF m p, of ops] w show ?thesis
    by (auto simp: f)
qed

lemma uwovid_300_request_200:
  fixes records :: "('a::len word list \<times> 't) list"
  assumes "length records = 300" and "snd (records ! 127) \<noteq> snd (records ! 0)"
  shows "\<exists>s0 s1. init_uwovid ops records 300 rows cols = Inr s0 \<and>
           nextChunk_uwovid s0 = Inr s1 \<and>
           U_current_frame_chunk s1 = 1 \<and>
           uwovid_frames_to_read (Some 200) s1 = 200 \<and>
           length (uwovid_window (Some 200) s1) = 172 \<and>
           loadChunk_uwovid ops (Some 200) s1 = Inl AttributeError"
proof -
  let ?s = "\<lparr> U_vid_file = \<lparr>vid_records = records, vid_pos = 0\<rparr>,
                U_current_frame_chunk = 0, U_current_frame = 0, U_current_fr_chunk_size = 0,
                U_total_frames = 300, U_nrows = rows, U_ncols = cols,
                U_fr_chunk_no = 128, U_total_fr_chunks = 2,
                U_frame_chunk_unix_times = [], U_cache = Map.empty \<rparr>"
  have f: "uwovid_frames_to_read None ?s = 128"
    by (simp add: uwovid_frames_to_read_def computeFramesToRead_def)
  have w: "length (uwovid_window None ?s) = nat (uwovid_frames_to_read None ?s)"
    unfolding uwovid_window_def f using assms(1) by (simp add: uwovid_start_def)
  have m: "U_cache ?s (cache_key None (U_current_frame_chunk ?s)) = None" by simp
  have p: "0 < uwovid_frames_to_read None ?s" by (simp add: f)
  from loadChunk_uwovid_aggregates [OF m p w, of ops]
  obtain ff s0 where l: "loadChunk_uwovid ops None ?s = Inr (Struct ff, s0)"
    and c: "U_cache s0 = [0 \<mapsto> (ff, map snd (uwovid_window None ?s))]"
    and k: "U_current_frame_chunk s0 = 0" "U_total_fr_chunks s0 = 2" "U_fr_chunk_no s0 = 128"
      "U_total_frames s0 = 300" "vid_records (U_vid_file s0) = records"
    and u: "U_frame_chunk_unix_times s0 = map snd (uwovid_window None ?s)"
    by (auto simp: cache_key_def)
  have ws: "uwovid_window None ?s = take 128 records"
    by (simp add: uwovid_window_def f uwovid_start_def)
  have lu: "length (U_frame_chunk_unix_times s0) = 128"
    using assms(1) by (simp add: u ws)
  then obtain t0 rest where tr: "U_frame_chunk_unix_times s0 = t0 # rest"
    by (cases "U_frame_chunk_unix_times s0") auto
  have "t0 = U_frame_chunk_unix_times s0 ! 0" by (simp add: tr)
  also have "\<dots> = snd (records ! 0)" using assms(1) by (simp add: u ws)
  finally have t0: "t0 = snd (records ! 0)" .
  have "U_frame_chunk_unix_times s0 \<noteq> []" using tr by simp
  then have "last (U_frame_chunk_unix_times s0) =
             U_frame_chunk_unix_times s0 ! (length (U_frame_chunk_unix_times s0) - 1)"
    by (rule last_conv_nth)
  then have "last (U_frame_chunk_unix_times s0) = U_frame_chunk_unix_times s0 ! 127"
    by (simp add: lu)
  also have "\<dots> = snd (records ! 127)" using assms(1) by (simp add: u ws)
  finally have "last (U_frame_chunk_unix_times s0) \<noteq> t0" using assms(2) t0 by simp
  then have i: "init_uwovid ops records 300 rows cols = Inr s0"
    using tr by (simp add: init_uwovid_def Let_def l)
  let ?s1 = "s0\<lparr>U_current_frame_chunk := 1, U_current_frame := 128\<rparr>"
  have n: "nextChunk_uwovid s0 = Inr ?s1"
    using k by (simp add: nextChunk_uwovid_def py_mod_def)
  have f1: "uwovid_frames_to_read (Some 200) ?s1 = 200"
    using k by (simp add: uwovid_frames_to_read_def computeFramesToRead_def)
  have w1: "length (uwovid_window (Some 200) ?s1) = 172"
    unfolding uwovid_window_def f1 using assms(1) k by (simp add: uwovid_start_def)
  have m1: "U_cache ?s1 (cache_key (Some 200) (U_current_frame_chunk ?s1)) = None"
    using c by (simp add: cache_key_def)
  have "length (uwovid_window (Some 200) ?s1) < nat (uwovid_frames_to_read (Some 200) ?s1)"
    by (simp add: w1 f1)
  from loadChunk_uwovid_truncated [OF m1 this, of ops] i n f1 w1 show ?thesis
    by (intro exI [of _ s0] exI [of _ ?s1]) simp
qed

lemma init_ff_index:
  assumes "init_ff readFF f2d names = Inr s0"
  shows "F_current_ff_index s0 = 0"
proof -
  from assms have "names \<noteq> []" by (auto simp: init_ff_def split: if_splits)
  with assms show ?thesis
    by (auto simp: init_ff_def Let_def loadChunk_ff_def)
qed

subsection \<open>The aggregation loop of the image adapter\<close>

lemma images_loop_eq:
  assumes "0 \<le> first + i" "I_total_frames s \<le> int (length (I_img_list s))"
  shows "images_loop imread ops s first ftr k i mx av li =
     Inr (foldl max_step mx
            (map (\<lambda>j. imread (I_img_list s ! j))
               [nat (first + i) ..< nat (min (first + i + int k) (I_total_frames s - 1))]),
          foldl (ave_step ops ftr) av
            (map (\<lambda>j. imread (I_img_list s ! j))
               [nat (first + i) ..< nat (min (first + i + int k) (I_total_frames s - 1))]),
          if k = 0 then li
          else if first + i + int k \<le> I_total_frames s - 1 then Some (i + int k - 1)
          else Some (max i (I_total_frames s - 1 - first)))"
  using assms(1)
proof (induction k arbitrary: i mx av li)
  case 0
  show ?case by simp
next
  case (Suc k)
  let ?a = "first + i"
  let ?T = "I_total_frames s"
  show ?case
  proof (cases "?a \<ge> ?T - 1")
    case True
    then have "nat (min (?a + int (Suc k)) (?T - 1)) \<le> nat ?a" by simp
    then have e: "[nat ?a ..< nat (min (?a + int (Suc k)) (?T - 1))] = []" by simp
    have m: "max i (?T - 1 - first) = i" using True by simp
    have n: "\<not> ?a + int (Suc k) \<le> ?T - 1" using True by simp
    show ?thesis using True by (simp add: e m n del: of_nat_Suc)
  next
    case False
    then have lt: "?a < ?T - 1" by simp
    have idx: "py_index (I_img_list s) ?a = Inr (I_img_list s ! nat ?a)"
      using Suc.prems lt assms(2) by (intro py_index_Inr) simp_all
    have lf: "loadFrame_images imread (Some ?a) s = Inr (imread (I_img_list s ! nat ?a))"
      by (simp add: loadFrame_images_def idx)
    have up: "nat ?a < nat (min (?a + int (Suc k)) (?T - 1))"
      using Suc.prems lt by simp
    have sa: "nat (first + (i + 1)) = Suc (nat ?a)" using Suc.prems by simp
    have ub: "first + (i + 1) + int k = ?a + int (Suc k)" by simp
    have w: "[nat ?a ..< nat (min (?a + int (Suc k)) (?T - 1))] =
             nat ?a # [nat (first + (i + 1)) ..< nat (min (first + (i + 1) + int k) (?T - 1))]"
      unfolding sa ub using up by (rule upt_conv_Cons)
    have p: "0 \<le> first + (i + 1)" using Suc.prems by simp
    have last: "(if k = 0 then Some i
                 else if first + (i + 1) + int k \<le> ?T - 1 then Some (i + 1 + int k - 1)
                 else Some (max (i + 1) (?T - 1 - first))) =
                (if ?a + int (Suc k) \<le> ?T - 1 then Some (i + int (Suc k) - 1)
                 else Some (max i (?T - 1 - first)))"
      using lt by (cases "k = 0") auto
    show ?thesis
      using False
      by (simp add: Let_def lf Suc.IH [OF p] w last del: of_nat_Suc upt_Suc)
  qed
qed

lemma loadChunk_images_aggregates:
  assumes miss: "I_cache s (cache_key n (I_current_frame_chunk s)) = None"
    and pos: "0 < images_frames_to_read n s"
    and start: "0 \<le> images_start n s"
    and len: "I_total_frames s \<le> int (length (I_img_list s))"
  shows "\<exists>ff s'. loadChunk_images imread ops n s = Inr (ff, s') \<and>
     maxpixel ff = foldl max_step (replicate (I_nrows s * I_ncols s) 0) (images_window imread n s) \<and>
     avepixel ff = ave_cast ops (foldl (ave_step ops (images_frames_to_read n s))
                     (replicate (I_nrows s * I_ncols s) (f_of_int ops 0))
                     (images_window imread n s)) \<and>
     nframes ff = I_total_frames s \<and>
     I_current_fr_chunk_size s' =
       (if images_start n s + images_frames_to_read n s \<le> I_total_frames s - 1
        then images_frames_to_read n s - 1
        else max 0 (I_total_frames s - 1 - images_start n s)) \<and>
     I_cache s' = [cache_key n (I_current_frame_chunk s) \<mapsto> ff]"
proof -
  let ?k = "nat (images_frames_to_read n s)"
  let ?f = "images_start n s"
  have k: "?k \<noteq> 0" using pos by simp
  have ik: "int ?k = images_frames_to_read n s" using pos by simp
  have s0: "0 \<le> ?f + 0" using start by simp
  note loop = images_loop_eq [OF s0 len, of imread ops "images_frames_to_read n s" ?k,
      simplified ik, simplified]
  have w: "map (\<lambda>j. imread (I_img_list s ! j))
             [nat ?f ..< nat (min (?f + images_frames_to_read n s) (I_total_frames s - 1))] =
           images_window imread n s"
    by (simp add: images_window_def)
  have c: "(if n = Some (- 1) then I_cache s (- 1) else I_cache s (I_current_frame_chunk s)) = None"
    using miss by (auto simp: cache_key_def split: if_splits)
  have st: "(if n = Some (- 1) then 0 else I_current_frame_chunk s * I_fr_chunk_no s) = ?f"
    by (simp add: images_start_def)
  show ?thesis
    unfolding loadChunk_images_def c st images_frames_to_read_def [symmetric]
    using k by (simp add: Let_def loop w cache_key_def)
qed

subsection \<open>The average of a truncated window\<close>

lemma truncated_video_avepixel:
  assumes "V_cache s (cache_key n (V_current_frame_chunk s)) = None"
    and "length (video_window n s) < nat (video_frames_to_read n s)"
    and "\<forall>f \<in> set (video_window n s). length f = V_nrows s * V_ncols s"
    and "j < V_nrows s * V_ncols s"
  shows "\<exists>ff s'. loadChunk_video ops n s = Inr (ff, s') \<and>
     avepixel ff ! j =
       word_of_int (f_trunc ops
         (foldl (\<lambda>a f. f_add ops a
                   (f_div ops (f_of_int ops (uint (f ! j)))
                      (f_of_int ops (video_frames_to_read n s))))
            (f_of_int ops 0) (video_window n s)))"
proof -
  let ?z = "replicate (V_nrows s * V_ncols s) (f_of_int ops 0)"
  have pos: "0 < video_frames_to_read n s" using assms(2) by simp
  from loadChunk_video_aggregates [OF assms(1) pos, of ops]
  obtain ff s' where l: "loadChunk_video ops n s = Inr (ff, s')"
    and a: "avepixel ff = ave_cast ops (foldl (ave_step ops (video_frames_to_read n s))
                     ?z (video_window n s))"
    by blast
  have g: "\<forall>f \<in> set (video_window n s). length f = length ?z" "j < length ?z"
    using assms(3,4) by simp_all
  from foldl_ave_step_nth [OF g, of ops "video_frames_to_read n s"]
  have "avepixel ff ! j =
       word_of_int (f_trunc ops
         (foldl (\<lambda>a f. f_add ops a
                   (f_div ops (f_of_int ops (uint (f ! j)))
                      (f_of_int ops (video_frames_to_read n s))))
            (f_of_int ops 0) (video_window n s)))"
    using assms(4) by (simp add: a ave_cast_def)
  with l show ?thesis by blast
qed

lemma truncated_images_avepixel:
  assumes "I_cache s (cache_key n (I_current_frame_chunk s)) = None"
    and "length (images_window imread n s) < nat (images_frames_to_read n s)"
    and "0 \<le> images_start n s"
    and "I_total_frames s \<le> int (length (I_img_list s))"
    and "\<forall>f \<in> set (images_window imread n s). length f = I_nrows s * I_ncols s"
    and "j < I_nrows s * I_ncols s"
  shows "\<exists>ff s'. loadChunk_images imread ops n s = Inr (ff, s') \<and>
     avepixel ff ! j =
       word_of_int (f_trunc ops
         (foldl (\<lambda>a f. f_add ops a
                   (f_div ops (f_of_int ops (uint (f ! j)))
                      (f_of_int ops (images_frames_to_read n s))))
            (f_of_int ops 0) (images_window imread n s)))"
proof -
  let ?z = "replicate (I_nrows s * I_ncols s) (f_of_int ops 0)"
  have pos: "0 < images_frames_to_read n s" using assms(2) by simp
  from loadChunk_images_aggregates [OF assms(1) pos assms(3,4), of imread ops]
  obtain ff s' where l: "loadChunk_images imread ops n s = Inr (ff, s')"
    and a: "avepixel ff = ave_cast ops (foldl (ave_step ops (images_frames_to_read n s))
                     ?z (images_window imread n s))"
    by blast
  have g: "\<forall>f \<in> set (images_window imread n s). length f = length ?z" "j < length ?z"
    using assms(5,6) by simp_all
  from foldl_ave_step_nth [OF g, of ops "images_frames_to_read n s"]
  have "avepixel ff ! j =
       word_of_int (f_trunc ops
         (foldl (\<lambda>a f. f_add ops a
                   (f_div ops (f_of_int ops (uint (f ! j)))
                      (f_of_int ops (images_frames_to_read n s))))
            (f_of_int ops 0) (images_window imread n s)))"
    using assms(6) by (simp add: a ave_cast_def)
  with l show ?thesis by blast
qed

lemma images_example_window:
  "images_frames_to_read (Some (- 1)) example_images = 2 \<and>
   images_start (Some (- 1)) example_images = 0 \<and>
   images_window example_imread (Some (- 1)) example_images = [[1]]"
  by (simp add: images_frames_to_read_def images_window_def images_start_def
      computeFramesToRead_def example_images_def example_imread_def)

section \<open>The claims\<close>

text \<open>
  C1. When a \<^verbatim>\<open>loadChunk\<close> call of the video or the image adapter aggregates a window
  that the end of the source truncates (fewer frames are processed than
  \<^verbatim>\<open>frames_to_read\<close>), every pixel of the returned \<^verbatim>\<open>avepixel\<close> is the float sum,
  accumulated from zero in the order of the frames, of the values of that pixel in the
  processed frames, each divided by the requested \<^verbatim>\<open>frames_to_read\<close> and not by the
  number of processed frames; the sum is truncated to the pixel type once, after the loop.
  The float operations are arbitrary. (In the vid adapter the same accumulation is written,
  but no truncated window returns: see C4.)
\<close>

theorem truncated_window_avepixel:
  "(V_cache sv (cache_key n (V_current_frame_chunk sv)) = None \<and>
    length (video_window n sv) < nat (video_frames_to_read n sv) \<and>
    (\<forall>f \<in> set (video_window n sv). length f = V_nrows sv * V_ncols sv) \<and>
    j < V_nrows sv * V_ncols sv \<longrightarrow>
    (\<exists>ff s'. loadChunk_video ops n sv = Inr (ff, s') \<and>
       avepixel ff ! j =
         word_of_int (f_trunc ops
           (foldl (\<lambda>a f. f_add ops a
                     (f_div ops (f_of_int ops (uint (f ! j)))
                        (f_of_int ops (video_frames_to_read n sv))))
              (f_of_int ops 0) (video_window n sv))))) \<and>
   (I_cache si (cache_key m (I_current_frame_chunk si)) = None \<and>
    length (images_window imread m si) < nat (images_frames_to_read m si) \<and>
    0 \<le> images_start m si \<and> I_total_frames si \<le> int (length (I_img_list si)) \<and>
    (\<forall>f \<in> set (images_window imread m si). length f = I_nrows si * I_ncols si) \<and>
    i < I_nrows si * I_ncols si \<longrightarrow>
    (\<exists>ff s'. loadChunk_images imread ops m si = Inr (ff, s') \<and>
       avepixel ff ! i =
         word_of_int (f_trunc ops
           (foldl (\<lambda>a f. f_add ops a
                     (f_div ops (f_of_int ops (uint (f ! i)))
                        (f_of_int ops (images_frames_to_read m si))))
              (f_of_int ops 0) (images_window imread m si)))))"
proof (intro conjI impI; elim conjE)
  assume "V_cache sv (cache_key n (V_current_frame_chunk sv)) = None"
    "length (video_window n sv) < nat (video_frames_to_read n sv)"
    "\<forall>f \<in> set (video_window n sv). length f = V_nrows sv * V_ncols sv"
    "j < V_nrows sv * V_ncols sv"
  then show "\<exists>ff s'. loadChunk_video ops n sv = Inr (ff, s') \<and>
       avepixel ff ! j =
         word_of_int (f_trunc ops
           (foldl (\<lambda>a f. f_add ops a
                     (f_div ops (f_of_int ops (uint (f ! j)))
                        (f_of_int ops (video_frames_to_read n sv))))
              (f_of_int ops 0) (video_window n sv)))"
    by (rule truncated_video_avepixel)
next
  assume "I_cache si (cache_key m (I_current_frame_chunk si)) = None"
    "length (images_window imread m si) < nat (images_frames_to_read m si)"
    "0 \<le> images_start m si" "I_total_frames si \<le> int (length (I_img_list si))"
    "\<forall>f \<in> set (images_window imread m si). length f = I_nrows si * I_ncols si"
    "i < I_nrows si * I_ncols si"
  then show "\<exists>ff s'. loadChunk_images imread ops m si = Inr (ff, s') \<and>
       avepixel ff ! i =
         word_of_int (f_trunc ops
           (foldl (\<lambda>a f. f_add ops a
                     (f_div ops (f_of_int ops (uint (f ! i)))
                        (f_of_int ops (images_frames_to_read m si))))
              (f_of_int ops 0) (images_window imread m si)))"
    by (rule truncated_images_avepixel)
qed

text \<open>
  On the example video the container reports four frames and two can be decoded, both of
  value 8: the window of \<^verbatim>\<open>loadChunk()\<close> is truncated to two frames, and \<^verbatim>\<open>avepixel\<close> is
  \<open>8/4 + 8/4 = 4\<close>, not the mean 8 of the two frames. On the example directory of two images
  \<^verbatim>\<open>loadChunk(-1)\<close> asks for two frames and processes the first, of value 1:
  \<^verbatim>\<open>avepixel\<close> is \<open>1/2\<close> truncated, 0, not the mean 1 of the processed frame.
\<close>

theorem truncated_window_avepixel_witness:
  "V_cache example_video (cache_key None (V_current_frame_chunk example_video)) = None \<and>
   video_window None example_video = [[8], [8]] \<and>
   video_frames_to_read None example_video = 4 \<and>
   V_nrows example_video * V_ncols example_video = 1 \<and>
   (\<exists>ff s'. loadChunk_video exact_ops None example_video = Inr (ff, s') \<and>
      avepixel ff ! 0 = 4) \<and>
   I_cache example_images (cache_key (Some (- 1)) (I_current_frame_chunk example_images)) = None \<and>
   images_window example_imread (Some (- 1)) example_images = [[1]] \<and>
   images_frames_to_read (Some (- 1)) example_images = 2 \<and>
   images_start (Some (- 1)) example_images = 0 \<and>
   I_total_frames example_images = int (length (I_img_list example_images)) \<and>
   I_nrows example_images * I_ncols example_images = 1 \<and>
   (\<exists>ff s'. loadChunk_images example_imread exact_ops (Some (- 1)) example_images =
      Inr (ff, s') \<and> avepixel ff ! 0 = 0)"
proof -
  note t = truncated_window_avepixel [where sv = example_video and n = None and j = 0
      and si = example_images and m = "Some (- 1)" and i = 0 and imread = example_imread
      and ops = exact_ops]
  have h1: "V_cache example_video (cache_key None (V_current_frame_chunk example_video)) = None"
    by (simp add: example_video_def init_video_def)
  have g: "V_nrows example_video * V_ncols example_video = 1"
    by (simp add: example_video_def init_video_def)
  have hv: "V_cache example_video (cache_key None (V_current_frame_chunk example_video)) = None \<and>
    length (video_window None example_video) < nat (video_frames_to_read None example_video) \<and>
    (\<forall>f \<in> set (video_window None example_video).
       length f = V_nrows example_video * V_ncols example_video) \<and>
    0 < V_nrows example_video * V_ncols example_video"
    by (simp add: h1 g video_example_window)
  have i1: "I_cache example_images
              (cache_key (Some (- 1)) (I_current_frame_chunk example_images)) = None"
    by (simp add: example_images_def cache_key_def)
  have gi: "I_nrows example_images * I_ncols example_images = 1"
    and li: "I_total_frames example_images = int (length (I_img_list example_images))"
    by (simp_all add: example_images_def)
  have hi: "I_cache example_images
              (cache_key (Some (- 1)) (I_current_frame_chunk example_images)) = None \<and>
    length (images_window example_imread (Some (- 1)) example_images) <
      nat (images_frames_to_read (Some (- 1)) example_images) \<and>
    0 \<le> images_start (Some (- 1)) example_images \<and>
    I_total_frames example_images \<le> int (length (I_img_list example_images)) \<and>
    (\<forall>f \<in> set (images_window example_imread (Some (- 1)) example_images).
       length f = I_nrows example_images * I_ncols example_images) \<and>
    0 < I_nrows example_images * I_ncols example_images"
    by (simp add: i1 gi li images_example_window)
  have "\<exists>ff s'. loadChunk_video exact_ops None example_video = Inr (ff, s') \<and>
      avepixel ff ! 0 = 4"
    using t [THEN conjunct1, rule_format, OF hv]
    by (simp add: video_example_window) (simp add: exact_ops_def)
  moreover have "\<exists>ff s'. loadChunk_images example_imread exact_ops (Some (- 1)) example_images =
      Inr (ff, s') \<and> avepixel ff ! 0 = 0"
    using t [THEN conjunct2, rule_format, OF hi]
    by (simp add: images_example_window) (simp add: exact_ops_def)
  ultimately show ?thesis using h1 g i1 gi li video_example_window images_example_window
    by blast
qed

text \<open>
  C2, as the specification states it: on a video of 600 frames with chunk length 256,
  \<^verbatim>\<open>loadChunk()\<close> on chunk 1 records 344 frames, and a positive \<^verbatim>\<open>read_nframes\<close> is capped
  at the remaining length of the source. On such a video the constructor counts 2 chunks,
  \<^verbatim>\<open>nextChunk\<close> leads to chunk 1, \<^verbatim>\<open>computeFramesToRead\<close> gives 256 for the default and
  \<^verbatim>\<open>loadChunk()\<close> records 256, not 344; and for \<^verbatim>\<open>read_nframes = 500\<close> on chunk 1
  \<^verbatim>\<open>computeFramesToRead\<close> gives 500, more than the 344 frames that remain.
\<close>

theorem frames_to_read_counterexample:
  "V_total_fr_chunks (init_video (replicate 600 [8]) 600 1 1 :: 8 word InputTypeVideo) = 2 \<and>
   nextChunk_video (init_video (replicate 600 [8]) 600 1 1 :: 8 word InputTypeVideo) =
     Inr ((init_video (replicate 600 [8]) 600 1 1)\<lparr>V_current_frame_chunk := 1,
            V_current_frame := 256\<rparr>) \<and>
   computeFramesToRead None 600 256 1 = 256 \<and>
   map_sum id (V_current_fr_chunk_size \<circ> snd)
     (loadChunk_video exact_ops None
        ((init_video (replicate 600 [8]) 600 1 1 :: 8 word InputTypeVideo)\<lparr>V_current_frame_chunk := 1,
           V_current_frame := 256\<rparr>)) = Inr 256 \<and>
   (256::int) \<noteq> 344 \<and>
   computeFramesToRead (Some 500) 600 256 1 = 500 \<and>
   (500::int) > 600 - 1 * 256"
proof (intro conjI)
  show "V_total_fr_chunks (init_video (replicate 600 [8]) 600 1 1 :: 8 word InputTypeVideo) = 2"
    by (simp add: init_video_600)
  show "nextChunk_video (init_video (replicate 600 [8]) 600 1 1 :: 8 word InputTypeVideo) =
     Inr ((init_video (replicate 600 [8]) 600 1 1)\<lparr>V_current_frame_chunk := 1,
            V_current_frame := 256\<rparr>)"
    by (rule video_600_second_chunk)
  show "map_sum id (V_current_fr_chunk_size \<circ> snd)
     (loadChunk_video exact_ops None
        ((init_video (replicate 600 [8]) 600 1 1 :: 8 word InputTypeVideo)\<lparr>V_current_frame_chunk := 1,
           V_current_frame := 256\<rparr>)) = Inr 256"
    by (rule video_600_default_size_example)
qed (simp_all add: computeFramesToRead_def)

text \<open>
  C2, amended. The archive adapter ignores the requested count. \<^verbatim>\<open>computeFramesToRead\<close>,
  which the three streaming adapters call with their own frame count \<open>T\<close>, chunk length
  \<open>L\<close> and chunk index \<open>c\<close>, returns: for \<open>-1\<close> the
  frame count of the whole source; for an unset count on a chunk of the adapter
  (\<open>0 \<le> c < total_chunks\<close>) the chunk length, or the whole source when the source is shorter
  than one chunk, and this window lies within the source; for a count \<open>N\<close>, where the
  source holds the whole nominal chunk and \<open>N\<close> frames from the chunk offset, \<open>N\<close>; and
  for a count \<open>N\<close> of at least the remaining length \<open>T - c * L\<close>, where the source ends
  before the nominal chunk does, that remaining length. On a video of 600 frames the
  constructor counts 2 chunks, \<^verbatim>\<open>loadChunk()\<close> on chunk 1 records 256 frames and
  \<^verbatim>\<open>loadChunk(-1)\<close> records 600.
\<close>

theorem frames_to_read_semantics:
  "loadChunk_ff readFF n sf = loadChunk_ff readFF None sf \<and>
   computeFramesToRead (Some (- 1)) T L c = T \<and>
   (0 < L \<and> 0 \<le> T \<and> 0 \<le> c \<and> c < max 1 (T div L) \<longrightarrow>
      computeFramesToRead None T L c = min L T \<and> c * L + min L T \<le> T) \<and>
   (N \<noteq> - 1 \<and> (c + 1) * L \<le> T \<and> c * L + N \<le> T \<longrightarrow>
      computeFramesToRead (Some N) T L c = N) \<and>
   (N \<noteq> - 1 \<and> T < (c + 1) * L \<and> T - c * L \<le> N \<longrightarrow>
      computeFramesToRead (Some N) T L c = T - c * L) \<and>
   V_total_fr_chunks (init_video frames 600 rows cols) = 2 \<and>
   (length frames = 600 \<longrightarrow>
      nextChunk_video (init_video frames 600 rows cols) =
        Inr ((init_video frames 600 rows cols)\<lparr>V_current_frame_chunk := 1,
               V_current_frame := 256\<rparr>) \<and>
      (\<exists>ff s'. loadChunk_video ops None
          ((init_video frames 600 rows cols)\<lparr>V_current_frame_chunk := 1,
             V_current_frame := 256\<rparr>) = Inr (ff, s') \<and>
         V_current_fr_chunk_size s' = 256) \<and>
      (\<exists>ff s'. loadChunk_video ops (Some (- 1)) (init_video frames 600 rows cols) = Inr (ff, s') \<and>
         V_current_fr_chunk_size s' = 600))"
proof (intro conjI impI; (elim conjE)?)
  show "loadChunk_ff readFF n sf = loadChunk_ff readFF None sf"
    by (simp add: loadChunk_ff_def)
next
  show "computeFramesToRead (Some (- 1)) T L c = T"
    by (simp add: computeFramesToRead_def)
next
  assume h: "0 < L" "0 \<le> T" "0 \<le> c" "c < max 1 (T div L)"
  from frames_to_read_valid_chunk [OF h]
  show "computeFramesToRead None T L c = min L T" "c * L + min L T \<le> T" by simp_all
next
  assume "N \<noteq> - 1" "(c + 1) * L \<le> T"
  then show "computeFramesToRead (Some N) T L c = N"
    by (simp add: computeFramesToRead_def)
next
  assume "N \<noteq> - 1" "T < (c + 1) * L"
  then show "computeFramesToRead (Some N) T L c = T - c * L"
    by (simp add: computeFramesToRead_def)
next
  show "V_total_fr_chunks (init_video frames 600 rows cols) = 2"
    by (simp add: init_video_600)
next
  show "nextChunk_video (init_video frames 600 rows cols) =
        Inr ((init_video frames 600 rows cols)\<lparr>V_current_frame_chunk := 1,
               V_current_frame := 256\<rparr>)"
    by (rule video_600_second_chunk)
next
  assume l: "length frames = 600"
  show "\<exists>ff s'. loadChunk_video ops None
          ((init_video frames 600 rows cols)\<lparr>V_current_frame_chunk := 1,
             V_current_frame := 256\<rparr>) = Inr (ff, s') \<and>
         V_current_fr_chunk_size s' = 256"
    by (rule video_600_default_size [OF l])
  show "\<exists>ff s'. loadChunk_video ops (Some (- 1)) (init_video frames 600 rows cols) = Inr (ff, s') \<and>
         V_current_fr_chunk_size s' = 600"
    by (rule video_600_all_size [OF l])
qed

theorem frames_to_read_semantics_witness:
  "(0::int) < 256 \<and> (0::int) \<le> 600 \<and> (0::int) \<le> 1 \<and> (1::int) < max 1 (600 div 256) \<and>
   computeFramesToRead None 600 256 1 = 256 \<and>
   (100::int) \<noteq> - 1 \<and> ((1::int) + 1) * 256 \<le> 600 \<and> (1::int) * 256 + 100 \<le> 600 \<and>
   computeFramesToRead (Some 100) 600 256 1 = 100 \<and>
   (500::int) \<noteq> - 1 \<and> (100::int) < (0 + 1) * 256 \<and> (100::int) - 0 * 256 \<le> 500 \<and>
   computeFramesToRead (Some 500) 100 256 0 = 100 \<and>
   length (replicate 600 [8::8 word]) = 600 \<and>
   (\<exists>ff s'. loadChunk_video exact_ops (Some (- 1))
      (init_video (replicate 600 [8::8 word]) 600 1 1) =
      Inr (ff, s') \<and> V_current_fr_chunk_size s' = 600)"
proof -
  note t = frames_to_read_semantics [where T = 600 and L = 256 and c = 1 and N = 100
      and frames = "replicate 600 [8::8 word]" and ops = exact_ops and rows = 1 and cols = 1]
  note t' = frames_to_read_semantics [where T = 100 and L = 256 and c = 0 and N = 500]
  have h1: "(0::int) < 256 \<and> (0::int) \<le> 600 \<and> (0::int) \<le> 1 \<and> (1::int) < max 1 (600 div 256)"
    by simp
  have h2: "(100::int) \<noteq> - 1 \<and> ((1::int) + 1) * 256 \<le> 600 \<and> (1::int) * 256 + 100 \<le> 600"
    by simp
  have h3: "(500::int) \<noteq> - 1 \<and> (100::int) < (0 + 1) * 256 \<and> (100::int) - 0 * 256 \<le> 500"
    by simp
  have h4: "length (replicate 600 [8::8 word]) = 600" by simp
  have "computeFramesToRead None 600 256 1 = 256"
    using t [THEN conjunct2, THEN conjunct2, THEN conjunct1, rule_format, OF h1] by simp
  moreover have "computeFramesToRead (Some 100) 600 256 1 = 100"
    using t [THEN conjunct2, THEN conjunct2, THEN conjunct2, THEN conjunct1, rule_format, OF h2] .
  moreover have "computeFramesToRead (Some 500) 100 256 0 = 100"
    using t' [THEN conjunct2, THEN conjunct2, THEN conjunct2, THEN conjunct2, THEN conjunct1,
        rule_format, OF h3]
    by simp
  moreover have "\<exists>ff s'. loadChunk_video exact_ops (Some (- 1))
      (init_video (replicate 600 [8::8 word]) 600 1 1) = Inr (ff, s') \<and>
      V_current_fr_chunk_size s' = 600"
    using t [THEN conjunct2, THEN conjunct2, THEN conjunct2, THEN conjunct2, THEN conjunct2,
        THEN conjunct2, rule_format, OF h4] by blast
  ultimately show ?thesis using h1 h2 h3 h4 by blast
qed

text \<open>
  C3 fails in the image adapter. The loop of \<^verbatim>\<open>InputTypeImages.loadChunk\<close> stops as soon as
  the image index reaches \<^verbatim>\<open>total_frames - 1\<close>, so the last image of the source is never
  aggregated, and it records the loop variable, not the number of frames. On the example
  directory with the images \<open>[1]\<close> and \<open>[9]\<close>, \<^verbatim>\<open>loadChunk(-1)\<close> returns the maxpixel
  \<open>[1]\<close>, while the maximum over the two frames is \<open>[9]\<close>, and records 1 frame of 2.
  (The video adapter does what the claim says: \<open>loadChunk_video_all_max\<close>.)
\<close>

theorem loadChunk_images_all_skips_last:
  "init_images example_imread exact_ops [''b.png'', ''a.png''] 1 1 = Inr example_images \<and>
   map example_imread (I_img_list example_images) = [[1], [9]] \<and>
   max_step [1] [9] = [9 :: 8 word] \<and>
   loadChunk_images example_imread exact_ops (Some (- 1)) example_images =
     Inr (\<lparr>maxpixel = [1], avepixel = [0], nrows = 1, ncols = 1, nframes = 2\<rparr>,
          example_images\<lparr>I_cache :=
            [- 1 \<mapsto> \<lparr>maxpixel = [1], avepixel = [0], nrows = 1, ncols = 1, nframes = 2\<rparr>]\<rparr>) \<and>
   I_current_fr_chunk_size (example_images\<lparr>I_cache :=
      [- 1 \<mapsto> \<lparr>maxpixel = [1], avepixel = [0], nrows = 1, ncols = 1, nframes = 2\<rparr>]\<rparr>) = 1 \<and>
   I_total_frames example_images = 2"
proof (intro conjI)
  show "init_images example_imread exact_ops [''b.png'', ''a.png''] 1 1 = Inr example_images"
    by (rule init_images_example)
  show "loadChunk_images example_imread exact_ops (Some (- 1)) example_images =
     Inr (\<lparr>maxpixel = [1], avepixel = [0], nrows = 1, ncols = 1, nframes = 2\<rparr>,
          example_images\<lparr>I_cache :=
            [- 1 \<mapsto> \<lparr>maxpixel = [1], avepixel = [0], nrows = 1, ncols = 1, nframes = 2\<rparr>]\<rparr>)"
    by (rule loadChunk_images_all_example)
qed (simp_all add: example_images_def example_imread_def max_step_def)

text \<open>
  C4 fails in the vid adapter and in the video adapter. In \<^verbatim>\<open>InputTypeUWOVid.loadChunk\<close>
  the result of the decode primitive is converted with \<^verbatim>\<open>.astype\<close> before it is tested
  for the end-of-stream sentinel, so a window that reaches the end of the file raises
  instead of truncating: on a file of 300 records (with the times 0 to 299), after
  \<^verbatim>\<open>nextChunk()\<close>,
  \<^verbatim>\<open>loadChunk(200)\<close> asks for 200 frames where 172 remain and raises
  \<^verbatim>\<open>AttributeError\<close>. In \<^verbatim>\<open>InputTypeVideo.loadChunk\<close> a truncated window returns, but the
  recorded count is the loop index of the failed read plus one: on a video of 600 frames,
  after \<^verbatim>\<open>nextChunk()\<close>, \<^verbatim>\<open>loadChunk(345)\<close> decodes the 344 remaining frames and records
  345, the requested number.
\<close>

theorem truncated_window_count_and_error:
  "(\<exists>s0 s1. init_uwovid exact_ops (map (\<lambda>t. ([5 :: 16 word], t)) [0..<300]) 300 1 1 = Inr s0 \<and>
      nextChunk_uwovid s0 = Inr s1 \<and>
      U_current_frame_chunk s1 = 1 \<and>
      uwovid_frames_to_read (Some 200) s1 = 200 \<and>
      length (uwovid_window (Some 200) s1) = 172 \<and>
      loadChunk_uwovid exact_ops (Some 200) s1 = Inl AttributeError) \<and>
   nextChunk_video (init_video (replicate 600 [8 :: 8 word]) 600 1 1) =
     Inr ((init_video (replicate 600 [8]) 600 1 1)\<lparr>V_current_frame_chunk := 1,
            V_current_frame := 256\<rparr>) \<and>
   length (video_window (Some 345)
     ((init_video (replicate 600 [8 :: 8 word]) 600 1 1)\<lparr>V_current_frame_chunk := 1,
        V_current_frame := 256\<rparr>)) = 344 \<and>
   (\<exists>ff s'. loadChunk_video exact_ops (Some 345)
      ((init_video (replicate 600 [8 :: 8 word]) 600 1 1)\<lparr>V_current_frame_chunk := 1,
         V_current_frame := 256\<rparr>) = Inr (ff, s') \<and>
      V_current_fr_chunk_size s' = 345)"
proof -
  have u: "length (map (\<lambda>t. ([5 :: 16 word], t)) [0..<300]) = 300" by simp
  have d: "snd (map (\<lambda>t. ([5 :: 16 word], t)) [0..<300] ! 127) \<noteq>
           snd (map (\<lambda>t. ([5 :: 16 word], t)) [0..<300] ! 0)" by simp
  have v: "length (replicate 600 [8 :: 8 word]) = 600" by simp
  from uwovid_300_request_200 [OF u d, of exact_ops 1 1]
    video_600_second_chunk [of "replicate 600 [8 :: 8 word]" 1 1]
    video_600_request_345 [OF v, of 1 1 exact_ops]
  show ?thesis by blast
qed

text \<open>
  C5 fails in the vid adapter for the whole-source key. \<^verbatim>\<open>InputTypeUWOVid.loadChunk\<close>
  stores the list of the aggregate and the frame times in the cache; on a hit for a chunk
  index it unpacks the list and returns the aggregate, but on a hit for \<open>-1\<close> it returns the
  list itself. On the example vid file the first \<^verbatim>\<open>loadChunk(-1)\<close> returns the aggregate
  and the second, with no call in between, returns the cached list. (The archive, video and
  image adapters, and the vid adapter for chunk keys, return the identical aggregate and
  leave the adapter unchanged: \<open>loadChunk_ff_twice\<close>, \<open>loadChunk_video_twice\<close>,
  \<open>loadChunk_images_twice\<close>, \<open>loadChunk_uwovid_twice_chunk\<close>.)
\<close>

theorem loadChunk_uwovid_all_twice:
  "init_uwovid exact_ops [([5], 0), ([7], 1)] 2 1 1 = Inr example_uwovid \<and>
   loadChunk_uwovid exact_ops (Some (- 1)) example_uwovid =
     Inr (Struct \<lparr>maxpixel = [7], avepixel = [6], nrows = 1, ncols = 1, nframes = 2\<rparr>,
          example_uwovid\<lparr>U_cache :=
            [- 1 \<mapsto> (\<lparr>maxpixel = [7], avepixel = [6], nrows = 1, ncols = 1, nframes = 2\<rparr>,
                       [0, 1])]\<rparr>) \<and>
   loadChunk_uwovid exact_ops (Some (- 1))
     (example_uwovid\<lparr>U_cache :=
        [- 1 \<mapsto> (\<lparr>maxpixel = [7], avepixel = [6], nrows = 1, ncols = 1, nframes = 2\<rparr>,
                   [0, 1])]\<rparr>) =
     Inr (CacheList \<lparr>maxpixel = [7], avepixel = [6], nrows = 1, ncols = 1, nframes = 2\<rparr> [0, 1],
          example_uwovid\<lparr>U_cache :=
            [- 1 \<mapsto> (\<lparr>maxpixel = [7], avepixel = [6], nrows = 1, ncols = 1, nframes = 2\<rparr>,
                       [0, 1])]\<rparr>)"
proof (intro conjI)
  show "init_uwovid exact_ops [([5], 0), ([7], 1)] 2 1 1 = Inr example_uwovid"
    by (rule init_uwovid_example)
  show "loadChunk_uwovid exact_ops (Some (- 1)) example_uwovid =
     Inr (Struct \<lparr>maxpixel = [7], avepixel = [6], nrows = 1, ncols = 1, nframes = 2\<rparr>,
          example_uwovid\<lparr>U_cache :=
            [- 1 \<mapsto> (\<lparr>maxpixel = [7], avepixel = [6], nrows = 1, ncols = 1, nframes = 2\<rparr>,
                       [0, 1])]\<rparr>)"
    by (rule loadChunk_uwovid_all_example)
  show "loadChunk_uwovid exact_ops (Some (- 1))
     (example_uwovid\<lparr>U_cache :=
        [- 1 \<mapsto> (\<lparr>maxpixel = [7], avepixel = [6], nrows = 1, ncols = 1, nframes = 2\<rparr>,
                   [0, 1])]\<rparr>) =
     Inr (CacheList \<lparr>maxpixel = [7], avepixel = [6], nrows = 1, ncols = 1, nframes = 2\<rparr> [0, 1],
          example_uwovid\<lparr>U_cache :=
            [- 1 \<mapsto> (\<lparr>maxpixel = [7], avepixel = [6], nrows = 1, ncols = 1, nframes = 2\<rparr>,
                       [0, 1])]\<rparr>)"
    by (rule loadChunk_uwovid_hit_all) simp
qed

text \<open>
  C6, as the specification states it: in every adapter \<^verbatim>\<open>nextChunk\<close> and \<^verbatim>\<open>prevChunk\<close>
  reset the frame index to \<open>chunk_index * chunk_length\<close>. The archive adapter does not:
  after two \<^verbatim>\<open>nextFrame\<close> calls in the second of two files, \<^verbatim>\<open>nextChunk\<close> wraps to
  file 0 and the frame index is still 2, which is not \<open>0 * chunk_length\<close> for any chunk
  length (256 frames per file here).
\<close>

theorem nextChunk_ff_frame_index_counterexample:
  "run (step_ff example_readFF id)
     [NextChunk, LoadChunk None, NextFrame, NextFrame, NextChunk] example_ff =
     Inr (example_ff\<lparr>F_current_frame := 2,
            F_cache := [''FF_b.fits'' \<mapsto> example_readFF ''FF_b.fits'']\<rparr>) \<and>
   F_current_ff_index (example_ff\<lparr>F_current_frame := 2,
      F_cache := [''FF_b.fits'' \<mapsto> example_readFF ''FF_b.fits'']\<rparr>) = 0 \<and>
   F_current_frame (example_ff\<lparr>F_current_frame := 2,
      F_cache := [''FF_b.fits'' \<mapsto> example_readFF ''FF_b.fits'']\<rparr>) \<noteq>
   F_current_ff_index (example_ff\<lparr>F_current_frame := 2,
      F_cache := [''FF_b.fits'' \<mapsto> example_readFF ''FF_b.fits'']\<rparr>) * 256"
  by (simp add: example_ff_def example_readFF_def nextChunk_ff_def py_mod_def py_index_def
      loadChunk_ff_def nextFrame_ff_def Let_def)

text \<open>
  C6, amended. In the three streaming adapters \<^verbatim>\<open>nextChunk\<close> and \<^verbatim>\<open>prevChunk\<close> set the
  chunk index to \<open>(chunk_index \<plusminus> 1) mod total_chunks\<close> and the frame index to the new chunk
  index times the chunk length. In the archive adapter they set the file index to
  \<open>(index \<plusminus> 1) mod\<close> the number of files, with the current file and the beginning time of
  that index, and leave the frame index as it is (the next \<^verbatim>\<open>loadChunk\<close> that misses the
  cache resets it). An adapter constructed on 300 archive files has 300 chunks along every
  sequence of calls, and \<^verbatim>\<open>nextChunk\<close> from index 299 wraps to 0.
\<close>

theorem chunk_navigation:
  "(V_total_fr_chunks sv \<noteq> 0 \<longrightarrow>
      nextChunk_video sv =
        Inr (sv\<lparr>V_current_frame_chunk := (V_current_frame_chunk sv + 1) mod V_total_fr_chunks sv,
               V_current_frame :=
                 (V_current_frame_chunk sv + 1) mod V_total_fr_chunks sv * V_fr_chunk_no sv\<rparr>) \<and>
      prevChunk_video sv =
        Inr (sv\<lparr>V_current_frame_chunk := (V_current_frame_chunk sv - 1) mod V_total_fr_chunks sv,
               V_current_frame :=
                 (V_current_frame_chunk sv - 1) mod V_total_fr_chunks sv * V_fr_chunk_no sv\<rparr>)) \<and>
   (U_total_fr_chunks su \<noteq> 0 \<longrightarrow>
      nextChunk_uwovid su =
        Inr (su\<lparr>U_current_frame_chunk := (U_current_frame_chunk su + 1) mod U_total_fr_chunks su,
               U_current_frame :=
                 (U_current_frame_chunk su + 1) mod U_total_fr_chunks su * U_fr_chunk_no su\<rparr>) \<and>
      prevChunk_uwovid su =
        Inr (su\<lparr>U_current_frame_chunk := (U_current_frame_chunk su - 1) mod U_total_fr_chunks su,
               U_current_frame :=
                 (U_current_frame_chunk su - 1) mod U_total_fr_chunks su * U_fr_chunk_no su\<rparr>)) \<and>
   (I_total_fr_chunks si \<noteq> 0 \<longrightarrow>
      nextChunk_images si =
        Inr (si\<lparr>I_current_frame_chunk := (I_current_frame_chunk si + 1) mod I_total_fr_chunks si,
               I_current_frame :=
                 (I_current_frame_chunk si + 1) mod I_total_fr_chunks si * I_fr_chunk_no si\<rparr>) \<and>
      prevChunk_images si =
        Inr (si\<lparr>I_current_frame_chunk := (I_current_frame_chunk si - 1) mod I_total_fr_chunks si,
               I_current_frame :=
                 (I_current_frame_chunk si - 1) mod I_total_fr_chunks si * I_fr_chunk_no si\<rparr>)) \<and>
   (F_ff_list sf \<noteq> [] \<longrightarrow>
      nextChunk_ff f2d sf =
        Inr (sf\<lparr>F_current_ff_index := (F_current_ff_index sf + 1) mod int (length (F_ff_list sf)),
               F_current_ff_file :=
                 F_ff_list sf ! nat ((F_current_ff_index sf + 1) mod int (length (F_ff_list sf))),
               F_beginning_datetime :=
                 f2d (F_ff_list sf !
                        nat ((F_current_ff_index sf + 1) mod int (length (F_ff_list sf))))\<rparr>) \<and>
      prevChunk_ff f2d sf =
        Inr (sf\<lparr>F_current_ff_index := (F_current_ff_index sf - 1) mod int (length (F_ff_list sf)),
               F_current_ff_file :=
                 F_ff_list sf ! nat ((F_current_ff_index sf - 1) mod int (length (F_ff_list sf))),
               F_beginning_datetime :=
                 f2d (F_ff_list sf !
                        nat ((F_current_ff_index sf - 1) mod int (length (F_ff_list sf))))\<rparr>)) \<and>
   (length names = 300 \<longrightarrow>
      (\<exists>s0. init_ff readFF f2d names = Inr s0 \<and> length (F_ff_list s0) = 300 \<and>
         (\<forall>cs s. run (step_ff readFF f2d) cs s0 = Inr s \<and> F_current_ff_index s = 299 \<longrightarrow>
            (\<exists>s'. nextChunk_ff f2d s = Inr s' \<and> F_current_ff_index s' = 0 \<and>
                  F_current_frame s' = F_current_frame s))))"
proof (intro conjI impI)
  assume n: "length names = 300"
  then have "names \<noteq> []" by auto
  from init_ff_list [OF this, of readFF f2d]
  obtain s0 where s0: "init_ff readFF f2d names = Inr s0" "F_ff_list s0 = sort names"
    by blast
  have len: "length (F_ff_list s0) = 300" using s0(2) n by simp
  have "\<exists>s'. nextChunk_ff f2d s = Inr s' \<and> F_current_ff_index s' = 0 \<and>
             F_current_frame s' = F_current_frame s"
    if r: "run (step_ff readFF f2d) cs s0 = Inr s" and i: "F_current_ff_index s = 299" for cs s
  proof -
    have l: "length (F_ff_list s) = 300" using run_ff_const [OF r] len by simp
    then have "F_ff_list s \<noteq> []" by auto
    from nextChunk_ff_eq [OF this, of f2d] show ?thesis using l i by simp
  qed
  with s0(1) len
  show "\<exists>s0. init_ff readFF f2d names = Inr s0 \<and> length (F_ff_list s0) = 300 \<and>
         (\<forall>cs s. run (step_ff readFF f2d) cs s0 = Inr s \<and> F_current_ff_index s = 299 \<longrightarrow>
            (\<exists>s'. nextChunk_ff f2d s = Inr s' \<and> F_current_ff_index s' = 0 \<and>
                  F_current_frame s' = F_current_frame s))"
    by blast
qed (simp_all add: nextChunk_video_eq prevChunk_video_eq nextChunk_uwovid_eq prevChunk_uwovid_eq
      nextChunk_images_eq prevChunk_images_eq nextChunk_ff_eq prevChunk_ff_eq)

theorem chunk_navigation_witness:
  "V_total_fr_chunks (init_video [] 600 1 1 :: 8 word InputTypeVideo) \<noteq> 0 \<and>
   nextChunk_video (init_video [] 600 1 1 :: 8 word InputTypeVideo) =
     Inr ((init_video [] 600 1 1)\<lparr>V_current_frame_chunk := 1, V_current_frame := 256\<rparr>) \<and>
   U_total_fr_chunks example_uwovid \<noteq> 0 \<and>
   prevChunk_uwovid example_uwovid =
     Inr (example_uwovid\<lparr>U_current_frame_chunk := 0, U_current_frame := 0\<rparr>) \<and>
   I_total_fr_chunks example_images \<noteq> 0 \<and>
   nextChunk_images example_images =
     Inr (example_images\<lparr>I_current_frame_chunk := 0, I_current_frame := 0\<rparr>) \<and>
   F_ff_list example_ff \<noteq> [] \<and>
   nextChunk_ff id example_ff =
     Inr (example_ff\<lparr>F_current_ff_index := 1, F_current_ff_file := ''FF_b.fits'',
            F_beginning_datetime := ''FF_b.fits''\<rparr>) \<and>
   length (map (\<lambda>n. replicate n CHR ''F'') [1..<301]) = 300 \<and>
   (\<exists>s0 s s'. init_ff example_readFF id (map (\<lambda>n. replicate n CHR ''F'') [1..<301]) = Inr s0 \<and>
      length (F_ff_list s0) = 300 \<and>
      run (step_ff example_readFF id) [PrevChunk] s0 = Inr s \<and> F_current_ff_index s = 299 \<and>
      nextChunk_ff id s = Inr s' \<and> F_current_ff_index s' = 0 \<and>
      F_current_frame s' = F_current_frame s)"
proof -
  note t = chunk_navigation [where sv = "init_video [] 600 1 1 :: 8 word InputTypeVideo"
      and su = example_uwovid and si = example_images and sf = example_ff and f2d = id
      and readFF = example_readFF and names = "map (\<lambda>n. replicate n CHR ''F'') [1..<301]"]
  have v: "V_total_fr_chunks (init_video [] 600 1 1 :: 8 word InputTypeVideo) \<noteq> 0"
    by (simp add: init_video_def)
  have u: "U_total_fr_chunks example_uwovid \<noteq> 0" by (simp add: example_uwovid_def)
  have i: "I_total_fr_chunks example_images \<noteq> 0" by (simp add: example_images_def)
  have f: "F_ff_list example_ff \<noteq> []" by (simp add: example_ff_def)
  have n: "length (map (\<lambda>n. replicate n CHR ''F'') [1..<301]) = 300" by simp
  have "nextChunk_video (init_video [] 600 1 1 :: 8 word InputTypeVideo) =
     Inr ((init_video [] 600 1 1)\<lparr>V_current_frame_chunk := 1, V_current_frame := 256\<rparr>)"
    using t [THEN conjunct1, rule_format, OF v, THEN conjunct1]
    by (simp add: init_video_def)
  moreover have "prevChunk_uwovid example_uwovid =
     Inr (example_uwovid\<lparr>U_current_frame_chunk := 0, U_current_frame := 0\<rparr>)"
    using t [THEN conjunct2, THEN conjunct1, rule_format, OF u, THEN conjunct2]
    by (simp add: example_uwovid_def)
  moreover have "nextChunk_images example_images =
     Inr (example_images\<lparr>I_current_frame_chunk := 0, I_current_frame := 0\<rparr>)"
    using t [THEN conjunct2, THEN conjunct2, THEN conjunct1, rule_format, OF i, THEN conjunct1]
    by (simp add: example_images_def)
  moreover have "nextChunk_ff id example_ff =
     Inr (example_ff\<lparr>F_current_ff_index := 1, F_current_ff_file := ''FF_b.fits'',
            F_beginning_datetime := ''FF_b.fits''\<rparr>)"
    using t [THEN conjunct2, THEN conjunct2, THEN conjunct2, THEN conjunct1, rule_format, OF f,
        THEN conjunct1]
    by (simp add: example_ff_def)
  moreover have "\<exists>s0 s s'.
      init_ff example_readFF id (map (\<lambda>n. replicate n CHR ''F'') [1..<301]) = Inr s0 \<and>
      length (F_ff_list s0) = 300 \<and>
      run (step_ff example_readFF id) [PrevChunk] s0 = Inr s \<and> F_current_ff_index s = 299 \<and>
      nextChunk_ff id s = Inr s' \<and> F_current_ff_index s' = 0 \<and>
      F_current_frame s' = F_current_frame s"
  proof -
    from t [THEN conjunct2, THEN conjunct2, THEN conjunct2, THEN conjunct2, rule_format, OF n]
    obtain s0 where i0: "init_ff example_readFF id (map (\<lambda>n. replicate n CHR ''F'') [1..<301]) = Inr s0"
      and l0: "length (F_ff_list s0) = 300"
      and a: "\<And>cs s. run (step_ff example_readFF id) cs s0 = Inr s \<Longrightarrow> F_current_ff_index s = 299 \<Longrightarrow>
            \<exists>s'. nextChunk_ff id s = Inr s' \<and> F_current_ff_index s' = 0 \<and>
                  F_current_frame s' = F_current_frame s"
      by blast
    have x0: "F_current_ff_index s0 = 0" using init_ff_index [OF i0] .
    from l0 have ne: "F_ff_list s0 \<noteq> []" by auto
    obtain s where p: "prevChunk_ff id s0 = Inr s" and xs: "F_current_ff_index s = 299"
      using prevChunk_ff_eq [OF ne, of id] l0 x0 by simp
    have r: "run (step_ff example_readFF id) [PrevChunk] s0 = Inr s" using p by simp
    from a [OF r xs] i0 l0 r xs show ?thesis by blast
  qed
  ultimately show ?thesis using v u i f n by blast
qed

text \<open>
  C7. In every adapter \<^verbatim>\<open>nextFrame\<close> and \<^verbatim>\<open>prevFrame\<close> set the frame index to
  \<open>(frame_index \<plusminus> 1) mod total_frames\<close> and change nothing else (the image adapter also
  sets the current image file to the file of the new index), so the chunk index is
  untouched; after \<open>N\<close> calls of \<^verbatim>\<open>nextFrame\<close> from frame 0 the frame index is
  \<open>N mod total_frames\<close>. The frame count is the attribute \<^verbatim>\<open>total_frames\<close> of the
  three streaming adapters and \<^verbatim>\<open>ff.nframes\<close> of the loaded file in the archive adapter;
  it must not be 0, where Python's \<^verbatim>\<open>%\<close> has no value.
\<close>

theorem frame_navigation:
  "(\<forall>ff. F_ff sf = Some ff \<and> nframes ff \<noteq> 0 \<longrightarrow>
      nextFrame_ff sf = Inr (sf\<lparr>F_current_frame := (F_current_frame sf + 1) mod nframes ff\<rparr>) \<and>
      prevFrame_ff sf = Inr (sf\<lparr>F_current_frame := (F_current_frame sf - 1) mod nframes ff\<rparr>) \<and>
      (F_current_frame sf = 0 \<longrightarrow>
         run (step_ff readFF f2d) (replicate N NextFrame) sf =
           Inr (sf\<lparr>F_current_frame := int N mod nframes ff\<rparr>))) \<and>
   (V_total_frames sv \<noteq> 0 \<longrightarrow>
      nextFrame_video sv =
        Inr (sv\<lparr>V_current_frame := (V_current_frame sv + 1) mod V_total_frames sv\<rparr>) \<and>
      prevFrame_video sv =
        Inr (sv\<lparr>V_current_frame := (V_current_frame sv - 1) mod V_total_frames sv\<rparr>) \<and>
      (V_current_frame sv = 0 \<longrightarrow>
         run (step_video ops) (replicate N NextFrame) sv =
           Inr (sv\<lparr>V_current_frame := int N mod V_total_frames sv\<rparr>))) \<and>
   (U_total_frames su \<noteq> 0 \<longrightarrow>
      nextFrame_uwovid su =
        Inr (su\<lparr>U_current_frame := (U_current_frame su + 1) mod U_total_frames su\<rparr>) \<and>
      prevFrame_uwovid su =
        Inr (su\<lparr>U_current_frame := (U_current_frame su - 1) mod U_total_frames su\<rparr>) \<and>
      (U_current_frame su = 0 \<longrightarrow>
         run (step_uwovid ops) (replicate N NextFrame) su =
           Inr (su\<lparr>U_current_frame := int N mod U_total_frames su\<rparr>))) \<and>
   (I_total_frames si = int (length (I_img_list si)) \<and> I_total_frames si \<noteq> 0 \<longrightarrow>
      nextFrame_images si = Inr (frame_file si ((I_current_frame si + 1) mod I_total_frames si)) \<and>
      prevFrame_images si = Inr (frame_file si ((I_current_frame si - 1) mod I_total_frames si)) \<and>
      (I_current_frame si = 0 \<longrightarrow>
         (\<exists>s'. run (step_images imread ops) (replicate N NextFrame) si = Inr s' \<and>
               I_current_frame s' = int N mod I_total_frames si \<and>
               I_current_frame_chunk s' = I_current_frame_chunk si)))"
proof (intro conjI allI impI; (elim conjE)?)
  fix ff
  assume f: "F_ff sf = Some ff" "nframes ff \<noteq> 0"
  show "nextFrame_ff sf = Inr (sf\<lparr>F_current_frame := (F_current_frame sf + 1) mod nframes ff\<rparr>)"
    by (rule nextFrame_ff_eq [OF f])
  show "prevFrame_ff sf = Inr (sf\<lparr>F_current_frame := (F_current_frame sf - 1) mod nframes ff\<rparr>)"
    by (rule prevFrame_ff_eq [OF f])
  assume "F_current_frame sf = 0"
  then show "run (step_ff readFF f2d) (replicate N NextFrame) sf =
      Inr (sf\<lparr>F_current_frame := int N mod nframes ff\<rparr>)"
    using run_nextFrame_ff [OF f, of readFF f2d N] by (cases "N = 0") simp_all
next
  assume v: "V_total_frames sv \<noteq> 0"
  show "nextFrame_video sv =
      Inr (sv\<lparr>V_current_frame := (V_current_frame sv + 1) mod V_total_frames sv\<rparr>)"
    by (rule nextFrame_video_eq [OF v])
  show "prevFrame_video sv =
      Inr (sv\<lparr>V_current_frame := (V_current_frame sv - 1) mod V_total_frames sv\<rparr>)"
    by (rule prevFrame_video_eq [OF v])
  assume "V_current_frame sv = 0"
  then show "run (step_video ops) (replicate N NextFrame) sv =
      Inr (sv\<lparr>V_current_frame := int N mod V_total_frames sv\<rparr>)"
    using run_nextFrame_video [OF v, of ops N] by (cases "N = 0") simp_all
next
  assume u: "U_total_frames su \<noteq> 0"
  show "nextFrame_uwovid su =
      Inr (su\<lparr>U_current_frame := (U_current_frame su + 1) mod U_total_frames su\<rparr>)"
    by (rule nextFrame_uwovid_eq [OF u])
  show "prevFrame_uwovid su =
      Inr (su\<lparr>U_current_frame := (U_current_frame su - 1) mod U_total_frames su\<rparr>)"
    by (rule prevFrame_uwovid_eq [OF u])
  assume "U_current_frame su = 0"
  then show "run (step_uwovid ops) (replicate N NextFrame) su =
      Inr (su\<lparr>U_current_frame := int N mod U_total_frames su\<rparr>)"
    using run_nextFrame_uwovid [OF u, of ops N] by (cases "N = 0") simp_all
next
  assume i: "I_total_frames si = int (length (I_img_list si))" "I_total_frames si \<noteq> 0"
  show "nextFrame_images si = Inr (frame_file si ((I_current_frame si + 1) mod I_total_frames si))"
    by (rule nextFrame_images_eq [OF i])
  show "prevFrame_images si = Inr (frame_file si ((I_current_frame si - 1) mod I_total_frames si))"
    by (rule prevFrame_images_eq [OF i])
  assume "I_current_frame si = 0"
  then show "\<exists>s'. run (step_images imread ops) (replicate N NextFrame) si = Inr s' \<and>
               I_current_frame s' = int N mod I_total_frames si \<and>
               I_current_frame_chunk s' = I_current_frame_chunk si"
    using run_nextFrame_images [OF i, of imread ops N]
    by (cases "N = 0") (simp_all add: frame_file_def)
qed

theorem frame_navigation_witness:
  "F_ff example_ff = Some (example_readFF ''FF_a.fits'') \<and>
   nframes (example_readFF ''FF_a.fits'') \<noteq> 0 \<and> F_current_frame example_ff = 0 \<and>
   run (step_ff example_readFF id) (replicate 300 NextFrame) example_ff =
     Inr (example_ff\<lparr>F_current_frame := 44\<rparr>) \<and>
   V_total_frames example_video \<noteq> 0 \<and> V_current_frame example_video = 0 \<and>
   run (step_video exact_ops) (replicate 300 NextFrame) example_video =
     Inr (example_video\<lparr>V_current_frame := 0\<rparr>) \<and>
   prevFrame_video example_video = Inr (example_video\<lparr>V_current_frame := 3\<rparr>) \<and>
   U_total_frames example_uwovid \<noteq> 0 \<and> U_current_frame example_uwovid = 0 \<and>
   run (step_uwovid exact_ops) (replicate 301 NextFrame) example_uwovid =
     Inr (example_uwovid\<lparr>U_current_frame := 1\<rparr>) \<and>
   I_total_frames example_images = int (length (I_img_list example_images)) \<and>
   I_total_frames example_images \<noteq> 0 \<and>
   nextFrame_images example_images =
     Inr (example_images\<lparr>I_current_frame := 1, I_current_img_file := ''b.png''\<rparr>)"
proof -
  note t = frame_navigation [where sf = example_ff and sv = example_video
      and su = example_uwovid and si = example_images and readFF = example_readFF and f2d = id
      and ops = exact_ops and imread = example_imread]
  have f: "F_ff example_ff = Some (example_readFF ''FF_a.fits'') \<and>
           nframes (example_readFF ''FF_a.fits'') \<noteq> 0"
    and f0: "F_current_frame example_ff = 0"
    by (simp_all add: example_ff_def example_readFF_def)
  have v: "V_total_frames example_video \<noteq> 0" and v0: "V_current_frame example_video = 0"
    by (simp_all add: example_video_def init_video_def)
  have u: "U_total_frames example_uwovid \<noteq> 0" and u0: "U_current_frame example_uwovid = 0"
    by (simp_all add: example_uwovid_def)
  have i: "I_total_frames example_images = int (length (I_img_list example_images)) \<and>
           I_total_frames example_images \<noteq> 0"
    by (simp add: example_images_def)
  note tf = t [where N = 300, THEN conjunct1, rule_format, OF f]
  note tv = t [where N = 300, THEN conjunct2, THEN conjunct1, rule_format, OF v]
  note tu = t [where N = 301, THEN conjunct2, THEN conjunct2, THEN conjunct1, rule_format, OF u]
  note ti = t [where N = 0, THEN conjunct2, THEN conjunct2, THEN conjunct2, rule_format, OF i]
  have "run (step_ff example_readFF id) (replicate 300 NextFrame) example_ff =
     Inr (example_ff\<lparr>F_current_frame := 44\<rparr>)"
    using tf [THEN conjunct2, THEN conjunct2, rule_format, OF f0]
    by (simp add: example_readFF_def)
  moreover have "run (step_video exact_ops) (replicate 300 NextFrame) example_video =
     Inr (example_video\<lparr>V_current_frame := 0\<rparr>)"
    using tv [THEN conjunct2, THEN conjunct2, rule_format, OF v0]
    by (simp add: example_video_def init_video_def)
  moreover have "prevFrame_video example_video = Inr (example_video\<lparr>V_current_frame := 3\<rparr>)"
    using tv [THEN conjunct2, THEN conjunct1]
    by (simp add: example_video_def init_video_def)
  moreover have "run (step_uwovid exact_ops) (replicate 301 NextFrame) example_uwovid =
     Inr (example_uwovid\<lparr>U_current_frame := 1\<rparr>)"
    using tu [THEN conjunct2, THEN conjunct2, rule_format, OF u0]
    by (simp add: example_uwovid_def)
  moreover have "nextFrame_images example_images =
     Inr (example_images\<lparr>I_current_frame := 1, I_current_img_file := ''b.png''\<rparr>)"
    using ti [THEN conjunct1] by (simp add: example_images_def frame_file_def)
  ultimately show ?thesis using f f0 v v0 u u0 i by blast
qed

text \<open>
  C8, as the specification states it: every chunk-changing call (\<^verbatim>\<open>nextChunk\<close>,
  \<^verbatim>\<open>prevChunk\<close>) first clears the cache. It does not: on the example video, after
  \<^verbatim>\<open>loadChunk()\<close> and \<^verbatim>\<open>nextChunk()\<close> the cache still holds the aggregate stored under
  key 0.
\<close>

theorem nextChunk_keeps_cache_counterexample:
  "run (step_video exact_ops) [LoadChunk None, NextChunk] example_video =
     Inr example_video_loaded \<and>
   nextChunk_video example_video_loaded = Inr example_video_loaded \<and>
   V_cache example_video_loaded 0 =
     Some \<lparr>maxpixel = [8], avepixel = [4], nrows = 1, ncols = 1, nframes = 4\<rparr>"
proof (intro conjI)
  show "run (step_video exact_ops) [LoadChunk None, NextChunk] example_video =
     Inr example_video_loaded"
    by (rule run_video_example)
  show "nextChunk_video example_video_loaded = Inr example_video_loaded"
    by (rule nextChunk_video_example)
  show "V_cache example_video_loaded 0 =
     Some \<lparr>maxpixel = [8], avepixel = [4], nrows = 1, ncols = 1, nframes = 4\<rparr>"
    by (simp add: example_video_loaded_def)
qed

text \<open>
  C8, amended. In every adapter the cache holds at most one entry after construction and
  after every sequence of calls. \<^verbatim>\<open>nextChunk\<close> and \<^verbatim>\<open>prevChunk\<close> leave the cache as it
  is. Every \<^verbatim>\<open>loadChunk\<close> that does not find its key in the cache, and so aggregates
  again, empties the cache and then stores the new aggregate, which is the only entry
  afterwards.
\<close>

theorem single_slot_cache:
  "(\<forall>cs s. run (step_video ops) cs (init_video frames tv rows cols) = Inr s \<longrightarrow>
      (\<exists>k. dom (V_cache s) \<subseteq> {k})) \<and>
   (\<forall>s0 cs s. init_uwovid ops records tu rows cols = Inr s0 \<and>
      run (step_uwovid ops) cs s0 = Inr s \<longrightarrow> (\<exists>k. dom (U_cache s) \<subseteq> {k})) \<and>
   (\<forall>s0 cs s. init_images imread ops names rows cols = Inr s0 \<and>
      run (step_images imread ops) cs s0 = Inr s \<longrightarrow> (\<exists>k. dom (I_cache s) \<subseteq> {k})) \<and>
   (\<forall>s0 cs s. init_ff readFF f2d ffnames = Inr s0 \<and>
      run (step_ff readFF f2d) cs s0 = Inr s \<longrightarrow> (\<exists>k. dom (F_cache s) \<subseteq> {k})) \<and>
   (\<forall>s'. nextChunk_video sv = Inr s' \<or> prevChunk_video sv = Inr s' \<longrightarrow>
      V_cache s' = V_cache sv) \<and>
   (\<forall>s'. nextChunk_uwovid su = Inr s' \<or> prevChunk_uwovid su = Inr s' \<longrightarrow>
      U_cache s' = U_cache su) \<and>
   (\<forall>s'. nextChunk_images si = Inr s' \<or> prevChunk_images si = Inr s' \<longrightarrow>
      I_cache s' = I_cache si) \<and>
   (\<forall>s'. nextChunk_ff f2d sf = Inr s' \<or> prevChunk_ff f2d sf = Inr s' \<longrightarrow>
      F_cache s' = F_cache sf) \<and>
   (\<forall>ff s'. V_cache sv (cache_key n (V_current_frame_chunk sv)) = None \<and>
      loadChunk_video ops n sv = Inr (ff, s') \<longrightarrow>
      V_cache s' = [cache_key n (V_current_frame_chunk sv) \<mapsto> ff]) \<and>
   (\<forall>r s'. U_cache su (cache_key n (U_current_frame_chunk su)) = None \<and>
      loadChunk_uwovid ops n su = Inr (r, s') \<longrightarrow>
      (\<exists>ff. r = Struct ff \<and>
         U_cache s' = [cache_key n (U_current_frame_chunk su) \<mapsto>
                         (ff, U_frame_chunk_unix_times s')])) \<and>
   (\<forall>ff s'. I_cache si (cache_key n (I_current_frame_chunk si)) = None \<and>
      loadChunk_images imread ops n si = Inr (ff, s') \<longrightarrow>
      I_cache s' = [cache_key n (I_current_frame_chunk si) \<mapsto> ff]) \<and>
   (F_cache sf (F_current_ff_file sf) = None \<longrightarrow>
      (\<exists>ff s'. loadChunk_ff readFF n sf = Inr (ff, s') \<and>
         F_cache s' = [F_current_ff_file sf \<mapsto> ff]))"
proof (intro conjI allI impI; (elim conjE)?)
  fix cs s
  assume r: "run (step_video ops) cs (init_video frames tv rows cols) = Inr s"
  have "\<exists>k. dom (V_cache (init_video frames tv rows cols)) \<subseteq> {k}"
    by (simp add: init_video_cache)
  from run_video_cache [OF this r] show "\<exists>k. dom (V_cache s) \<subseteq> {k}" .
next
  fix s0 cs s
  assume i: "init_uwovid ops records tu rows cols = Inr s0"
    and r: "run (step_uwovid ops) cs s0 = Inr s"
  from init_uwovid_cache [OF i] obtain e where "U_cache s0 = [0 \<mapsto> e]" ..
  then have "dom (U_cache s0) \<subseteq> {0}" by simp
  then have "\<exists>k. dom (U_cache s0) \<subseteq> {k}" ..
  from run_uwovid_cache [OF this r] show "\<exists>k. dom (U_cache s) \<subseteq> {k}" .
next
  fix s0 cs s
  assume i: "init_images imread ops names rows cols = Inr s0"
    and r: "run (step_images imread ops) cs s0 = Inr s"
  from init_images_cache [OF i] obtain e where "I_cache s0 = [0 \<mapsto> e]" ..
  then have "dom (I_cache s0) \<subseteq> {0}" by simp
  then have "\<exists>k. dom (I_cache s0) \<subseteq> {k}" ..
  from run_images_cache [OF this r] show "\<exists>k. dom (I_cache s) \<subseteq> {k}" .
next
  fix s0 cs s
  assume i: "init_ff readFF f2d ffnames = Inr s0"
    and r: "run (step_ff readFF f2d) cs s0 = Inr s"
  from init_ff_cache [OF i] obtain k e where "F_cache s0 = [k \<mapsto> e]" by blast
  then have "dom (F_cache s0) \<subseteq> {k}" by simp
  then have "\<exists>k. dom (F_cache s0) \<subseteq> {k}" ..
  from run_ff_cache [OF this r] show "\<exists>k. dom (F_cache s) \<subseteq> {k}" .
next
  fix s'
  assume "nextChunk_video sv = Inr s' \<or> prevChunk_video sv = Inr s'"
  then show "V_cache s' = V_cache sv"
    by (auto simp: nextChunk_video_def prevChunk_video_def split: sum.splits)
next
  fix s'
  assume "nextChunk_uwovid su = Inr s' \<or> prevChunk_uwovid su = Inr s'"
  then show "U_cache s' = U_cache su"
    by (auto simp: nextChunk_uwovid_def prevChunk_uwovid_def split: sum.splits)
next
  fix s'
  assume "nextChunk_images si = Inr s' \<or> prevChunk_images si = Inr s'"
  then show "I_cache s' = I_cache si"
    by (auto simp: nextChunk_images_def prevChunk_images_def split: sum.splits)
next
  fix s'
  assume "nextChunk_ff f2d sf = Inr s' \<or> prevChunk_ff f2d sf = Inr s'"
  then show "F_cache s' = F_cache sf"
    by (auto simp: nextChunk_ff_def prevChunk_ff_def split: sum.splits)
next
  fix ff s'
  assume "V_cache sv (cache_key n (V_current_frame_chunk sv)) = None"
    and "loadChunk_video ops n sv = Inr (ff, s')"
  from loadChunk_video_miss [OF this]
  show "V_cache s' = [cache_key n (V_current_frame_chunk sv) \<mapsto> ff]" by auto
next
  fix r s'
  assume "U_cache su (cache_key n (U_current_frame_chunk su)) = None"
    and "loadChunk_uwovid ops n su = Inr (r, s')"
  from loadChunk_uwovid_miss [OF this]
  obtain ff vf1 uts i where r: "r = Struct ff"
    and s': "s' = su\<lparr>U_vid_file := vf1, U_frame_chunk_unix_times := uts,
                  U_current_fr_chunk_size := i,
                  U_cache := [cache_key n (U_current_frame_chunk su) \<mapsto> (ff, uts)]\<rparr>"
    by blast
  from s' have "U_cache s' = [cache_key n (U_current_frame_chunk su) \<mapsto>
                         (ff, U_frame_chunk_unix_times s')]" by simp
  with r show "\<exists>ff. r = Struct ff \<and>
         U_cache s' = [cache_key n (U_current_frame_chunk su) \<mapsto>
                         (ff, U_frame_chunk_unix_times s')]" by blast
next
  fix ff s'
  assume "I_cache si (cache_key n (I_current_frame_chunk si)) = None"
    and "loadChunk_images imread ops n si = Inr (ff, s')"
  from loadChunk_images_miss [OF this]
  show "I_cache s' = [cache_key n (I_current_frame_chunk si) \<mapsto> ff]" by auto
next
  assume "F_cache sf (F_current_ff_file sf) = None"
  then show "\<exists>ff s'. loadChunk_ff readFF n sf = Inr (ff, s') \<and>
         F_cache s' = [F_current_ff_file sf \<mapsto> ff]"
    by (simp add: loadChunk_ff_miss)
qed

theorem single_slot_cache_witness:
  "run (step_video exact_ops) [LoadChunk None, NextChunk] (init_video [[8], [8]] 4 1 1) =
     Inr example_video_loaded \<and>
   (\<exists>k. dom (V_cache example_video_loaded) \<subseteq> {k}) \<and>
   init_uwovid exact_ops [([5], 0), ([7], 1)] 2 1 1 = Inr example_uwovid \<and>
   (\<exists>k. dom (U_cache example_uwovid) \<subseteq> {k}) \<and>
   init_images example_imread exact_ops [''b.png'', ''a.png''] 1 1 = Inr example_images \<and>
   (\<exists>k. dom (I_cache example_images) \<subseteq> {k}) \<and>
   init_ff example_readFF id [''FF_b.fits'', ''FF_a.fits''] = Inr example_ff \<and>
   (\<exists>k. dom (F_cache example_ff) \<subseteq> {k}) \<and>
   nextChunk_video example_video_loaded = Inr example_video_loaded \<and>
   V_cache example_video_loaded 0 \<noteq> None \<and>
   V_cache example_video (cache_key (Some (- 1)) (V_current_frame_chunk example_video)) = None \<and>
   (\<exists>ff s'. loadChunk_video exact_ops (Some (- 1)) example_video = Inr (ff, s') \<and>
      V_cache s' = [- 1 \<mapsto> ff]) \<and>
   (\<exists>ff s'. loadChunk_uwovid exact_ops (Some (- 1)) example_uwovid = Inr (Struct ff, s') \<and>
      U_cache s' = [- 1 \<mapsto> (ff, U_frame_chunk_unix_times s')]) \<and>
   (\<exists>ff s'. loadChunk_images example_imread exact_ops (Some (- 1)) example_images = Inr (ff, s') \<and>
      I_cache s' = [- 1 \<mapsto> ff]) \<and>
   (\<exists>ff s'. loadChunk_ff example_readFF (Some (- 1))
       (example_ff\<lparr>F_current_ff_file := ''FF_b.fits''\<rparr>) = Inr (ff, s') \<and>
      F_cache s' = [''FF_b.fits'' \<mapsto> ff])"
proof -
  note t = single_slot_cache [where ops = exact_ops and frames = "[[8], [8]]" and tv = 4
      and rows = 1 and cols = 1 and records = "[([5], 0), ([7], 1)]" and tu = 2
      and imread = example_imread and names = "[''b.png'', ''a.png'']"
      and readFF = example_readFF and f2d = id and ffnames = "[''FF_b.fits'', ''FF_a.fits'']"
      and sv = example_video and su = example_uwovid and si = example_images
      and sf = "example_ff\<lparr>F_current_ff_file := ''FF_b.fits''\<rparr>" and n = "Some (- 1)"]
  note tl = single_slot_cache [where sv = example_video_loaded, THEN conjunct2, THEN conjunct2,
      THEN conjunct2, THEN conjunct2, THEN conjunct1, rule_format, OF disjI1]
  have rv: "run (step_video exact_ops) [LoadChunk None, NextChunk] (init_video [[8], [8]] 4 1 1) =
     Inr example_video_loaded"
    using run_video_example by (simp only: example_video_def)
  have ru: "run (step_uwovid exact_ops) [] example_uwovid = Inr example_uwovid"
    and ri: "run (step_images example_imread exact_ops) [] example_images = Inr example_images"
    and rf: "run (step_ff example_readFF id) [] example_ff = Inr example_ff"
    by simp_all
  have kv: "cache_key (Some (- 1)) (V_current_frame_chunk example_video) = - 1"
    and ku: "cache_key (Some (- 1)) (U_current_frame_chunk example_uwovid) = - 1"
    and ki: "cache_key (Some (- 1)) (I_current_frame_chunk example_images) = - 1"
    by (simp_all add: cache_key_def)
  have mv: "V_cache example_video (cache_key (Some (- 1)) (V_current_frame_chunk example_video)) = None"
    by (simp add: example_video_def init_video_def)
  have mu: "U_cache example_uwovid (cache_key (Some (- 1)) (U_current_frame_chunk example_uwovid)) = None"
    by (simp add: example_uwovid_def cache_key_def)
  have mi: "I_cache example_images (cache_key (Some (- 1)) (I_current_frame_chunk example_images)) = None"
    by (simp add: example_images_def cache_key_def)
  have mf: "F_cache (example_ff\<lparr>F_current_ff_file := ''FF_b.fits''\<rparr>)
              (F_current_ff_file (example_ff\<lparr>F_current_ff_file := ''FF_b.fits''\<rparr>)) = None"
    by (simp add: example_ff_def)
  have "\<exists>k. dom (V_cache example_video_loaded) \<subseteq> {k}"
    using t [THEN conjunct1, rule_format, OF rv] .
  moreover have "\<exists>k. dom (U_cache example_uwovid) \<subseteq> {k}"
    using t [THEN conjunct2, THEN conjunct1, rule_format, OF conjI, OF init_uwovid_example ru] .
  moreover have "\<exists>k. dom (I_cache example_images) \<subseteq> {k}"
    using t [THEN conjunct2, THEN conjunct2, THEN conjunct1, rule_format, OF conjI, OF init_images_example ri] .
  moreover have "\<exists>k. dom (F_cache example_ff) \<subseteq> {k}"
    using t [THEN conjunct2, THEN conjunct2, THEN conjunct2, THEN conjunct1, rule_format, OF conjI, OF init_ff_example rf] .
  moreover have "V_cache example_video_loaded 0 \<noteq> None"
    using tl [OF nextChunk_video_example] by (simp add: example_video_loaded_def)
  moreover have "\<exists>ff s'. loadChunk_video exact_ops (Some (- 1)) example_video = Inr (ff, s') \<and>
      V_cache s' = [- 1 \<mapsto> ff]"
    using t [THEN conjunct2, THEN conjunct2, THEN conjunct2, THEN conjunct2, THEN conjunct2, THEN conjunct2, THEN conjunct2, THEN conjunct2, THEN conjunct1, rule_format, OF conjI, OF mv loadChunk_video_all_example]
      loadChunk_video_all_example kv by fastforce
  moreover have "\<exists>ff s'. loadChunk_uwovid exact_ops (Some (- 1)) example_uwovid =
      Inr (Struct ff, s') \<and> U_cache s' = [- 1 \<mapsto> (ff, U_frame_chunk_unix_times s')]"
    using t [THEN conjunct2, THEN conjunct2, THEN conjunct2, THEN conjunct2, THEN conjunct2, THEN conjunct2, THEN conjunct2, THEN conjunct2, THEN conjunct2, THEN conjunct1, rule_format, OF conjI, OF mu loadChunk_uwovid_all_example]
      loadChunk_uwovid_all_example ku by fastforce
  moreover have "\<exists>ff s'. loadChunk_images example_imread exact_ops (Some (- 1)) example_images =
      Inr (ff, s') \<and> I_cache s' = [- 1 \<mapsto> ff]"
    using t [THEN conjunct2, THEN conjunct2, THEN conjunct2, THEN conjunct2, THEN conjunct2, THEN conjunct2, THEN conjunct2, THEN conjunct2, THEN conjunct2, THEN conjunct2, THEN conjunct1, rule_format, OF conjI, OF mi loadChunk_images_all_example]
      loadChunk_images_all_example ki by fastforce
  moreover have "\<exists>ff s'. loadChunk_ff example_readFF (Some (- 1))
       (example_ff\<lparr>F_current_ff_file := ''FF_b.fits''\<rparr>) = Inr (ff, s') \<and>
      F_cache s' = [''FF_b.fits'' \<mapsto> ff]"
    using t [THEN conjunct2, THEN conjunct2, THEN conjunct2, THEN conjunct2, THEN conjunct2, THEN conjunct2, THEN conjunct2, THEN conjunct2, THEN conjunct2, THEN conjunct2, THEN conjunct2, rule_format, OF mf] by simp
  ultimately show ?thesis
    using rv init_uwovid_example init_images_example init_ff_example nextChunk_video_example mv
    by blast
qed

text \<open>
  C9. The three adapters that compute chunks from raw frames set the number of chunks to
  \<^verbatim>\<open>total_frames // fr_chunk_no\<close>, raised to 1 when it is 0. For a frame count that is
  not negative the number is at least 1, it stays so along every sequence of calls, and
  \<^verbatim>\<open>nextChunk\<close> and \<^verbatim>\<open>prevChunk\<close> return without a division by zero.
\<close>

theorem total_fr_chunks_at_least_one:
  "(0 \<le> tv \<longrightarrow>
      V_total_fr_chunks (init_video frames tv rows cols) = max 1 (tv div 256) \<and>
      (\<forall>cs s. run (step_video ops) cs (init_video frames tv rows cols) = Inr s \<longrightarrow>
         1 \<le> V_total_fr_chunks s \<and>
         (\<exists>s'. nextChunk_video s = Inr s') \<and> (\<exists>s'. prevChunk_video s = Inr s'))) \<and>
   (\<forall>s0. 0 \<le> tu \<and> init_uwovid ops records tu rows cols = Inr s0 \<longrightarrow>
      U_total_fr_chunks s0 = max 1 (tu div 128) \<and>
      (\<forall>cs s. run (step_uwovid ops) cs s0 = Inr s \<longrightarrow>
         1 \<le> U_total_fr_chunks s \<and>
         (\<exists>s'. nextChunk_uwovid s = Inr s') \<and> (\<exists>s'. prevChunk_uwovid s = Inr s'))) \<and>
   (\<forall>s0. init_images imread ops names rows cols = Inr s0 \<longrightarrow>
      I_total_fr_chunks s0 = max 1 (int (length names) div 64) \<and>
      (\<forall>cs s. run (step_images imread ops) cs s0 = Inr s \<longrightarrow>
         1 \<le> I_total_fr_chunks s \<and>
         (\<exists>s'. nextChunk_images s = Inr s') \<and> (\<exists>s'. prevChunk_images s = Inr s')))"
proof (intro conjI impI allI)
  assume "0 \<le> tv"
  then show "V_total_fr_chunks (init_video frames tv rows cols) = max 1 (tv div 256)"
    by (rule init_video_chunks)
next
  fix cs s
  assume t: "0 \<le> tv" and r: "run (step_video ops) cs (init_video frames tv rows cols) = Inr s"
  have c: "V_total_fr_chunks s = max 1 (tv div 256)"
    using run_video_const [OF r] init_video_chunks [OF t] by simp
  then show "1 \<le> V_total_fr_chunks s" by simp
  from c have "V_total_fr_chunks s \<noteq> 0" by simp
  then show "\<exists>s'. nextChunk_video s = Inr s'" "\<exists>s'. prevChunk_video s = Inr s'"
    by (simp_all add: nextChunk_video_eq prevChunk_video_eq)
next
  fix s0
  assume "0 \<le> tu \<and> init_uwovid ops records tu rows cols = Inr s0"
  then show "U_total_fr_chunks s0 = max 1 (tu div 128)"
    using init_uwovid_chunks [of tu ops records rows cols s0] by simp
next
  fix s0 cs s
  assume i: "0 \<le> tu \<and> init_uwovid ops records tu rows cols = Inr s0"
    and r: "run (step_uwovid ops) cs s0 = Inr s"
  have c: "U_total_fr_chunks s = max 1 (tu div 128)"
    using run_uwovid_const [OF r] i init_uwovid_chunks [of tu ops records rows cols s0] by simp
  then show "1 \<le> U_total_fr_chunks s" by simp
  from c have "U_total_fr_chunks s \<noteq> 0" by simp
  then show "\<exists>s'. nextChunk_uwovid s = Inr s'" "\<exists>s'. prevChunk_uwovid s = Inr s'"
    by (simp_all add: nextChunk_uwovid_eq prevChunk_uwovid_eq)
next
  fix s0
  assume "init_images imread ops names rows cols = Inr s0"
  then show "I_total_fr_chunks s0 = max 1 (int (length names) div 64)"
    using init_images_chunks [of imread ops names rows cols s0] by simp
next
  fix s0 cs s
  assume i: "init_images imread ops names rows cols = Inr s0"
    and r: "run (step_images imread ops) cs s0 = Inr s"
  have c: "I_total_fr_chunks s = max 1 (int (length names) div 64)"
    using run_images_const [OF r] init_images_chunks [OF i] by simp
  then show "1 \<le> I_total_fr_chunks s" by simp
  from c have "I_total_fr_chunks s \<noteq> 0" by simp
  then show "\<exists>s'. nextChunk_images s = Inr s'" "\<exists>s'. prevChunk_images s = Inr s'"
    by (simp_all add: nextChunk_images_eq prevChunk_images_eq)
qed

theorem total_fr_chunks_at_least_one_witness:
  "(0::int) \<le> 4 \<and> V_total_fr_chunks example_video = 1 \<and>
   (\<exists>s'. nextChunk_video example_video = Inr s') \<and>
   (0::int) \<le> 2 \<and> init_uwovid exact_ops [([5], 0), ([7], 1)] 2 1 1 = Inr example_uwovid \<and>
   U_total_fr_chunks example_uwovid = 1 \<and>
   (\<exists>s'. prevChunk_uwovid example_uwovid = Inr s') \<and>
   init_images example_imread exact_ops [''b.png'', ''a.png''] 1 1 = Inr example_images \<and>
   I_total_fr_chunks example_images = 1 \<and>
   (\<exists>s'. nextChunk_images example_images = Inr s')"
proof -
  note t = total_fr_chunks_at_least_one [of 4 "[[8], [8]]" 1 1 exact_ops 2 "[([5], 0), ([7], 1)]"
      example_imread "[''b.png'', ''a.png'']"]
  have v0: "(0::int) \<le> 4" and u0: "(0::int) \<le> 2" by simp_all
  have v: "run (step_video exact_ops) [] (init_video [[8], [8]] 4 1 1) =
             Inr (example_video :: 8 word InputTypeVideo)"
    by (simp add: example_video_def)
  have u: "run (step_uwovid exact_ops) [] example_uwovid = Inr example_uwovid" by simp
  have i: "run (step_images example_imread exact_ops) [] example_images = Inr example_images"
    by simp
  note tv = t [THEN conjunct1, rule_format, OF v0]
  note tu = t [THEN conjunct2, THEN conjunct1, rule_format, OF conjI, OF u0 init_uwovid_example]
  note ti = t [THEN conjunct2, THEN conjunct2, rule_format, OF init_images_example]
  have "V_total_fr_chunks example_video = 1"
    using tv [THEN conjunct1] by (simp add: example_video_def)
  moreover have "\<exists>s'. nextChunk_video example_video = Inr s'"
    using tv [THEN conjunct2, rule_format, OF v] by simp
  moreover have "U_total_fr_chunks example_uwovid = 1"
    using tu [THEN conjunct1] by simp
  moreover have "\<exists>s'. prevChunk_uwovid example_uwovid = Inr s'"
    using tu [THEN conjunct2, rule_format, OF u] by simp
  moreover have "I_total_fr_chunks example_images = 1"
    using ti [THEN conjunct1] by simp
  moreover have "\<exists>s'. nextChunk_images example_images = Inr s'"
    using ti [THEN conjunct2, rule_format, OF i] by simp
  ultimately show ?thesis
    using init_uwovid_example init_images_example by simp
qed

text \<open>
  C10. In the archive (FF) adapter, a \<^verbatim>\<open>loadChunk\<close> call that misses the cache resets the
  current frame index to 0, and a call that hits the cache returns the cached structure and
  leaves the whole adapter, the frame index included, as it was.
\<close>

theorem loadChunk_ff_frame_index:
  "(F_cache s (F_current_ff_file s) = None \<longrightarrow>
      (\<exists>ff s'. loadChunk_ff readFF n s = Inr (ff, s') \<and> F_current_frame s' = 0)) \<and>
   (\<forall>ff. F_cache s (F_current_ff_file s) = Some ff \<longrightarrow>
      loadChunk_ff readFF n s = Inr (ff, s))"
  by (simp add: loadChunk_ff_hit loadChunk_ff_miss)

theorem loadChunk_ff_frame_index_witness:
  "F_cache (example_ff\<lparr>F_current_ff_file := ''FF_b.fits'', F_current_frame := 5\<rparr>)
     ''FF_b.fits'' = None \<and>
   (\<exists>ff s'. loadChunk_ff example_readFF None
       (example_ff\<lparr>F_current_ff_file := ''FF_b.fits'', F_current_frame := 5\<rparr>) = Inr (ff, s') \<and>
     F_current_frame s' = 0) \<and>
   F_cache (example_ff\<lparr>F_current_frame := 5\<rparr>) ''FF_a.fits'' = Some (example_readFF ''FF_a.fits'') \<and>
   loadChunk_ff example_readFF None (example_ff\<lparr>F_current_frame := 5\<rparr>) =
     Inr (example_readFF ''FF_a.fits'', example_ff\<lparr>F_current_frame := 5\<rparr>) \<and>
   F_current_frame (example_ff\<lparr>F_current_frame := 5\<rparr>) = 5"
  using loadChunk_ff_frame_index
      [of "example_ff\<lparr>F_current_ff_file := ''FF_b.fits'', F_current_frame := 5\<rparr>"
        example_readFF None]
    loadChunk_ff_frame_index [of "example_ff\<lparr>F_current_frame := 5\<rparr>" example_readFF None]
  by (simp add: example_ff_def)

end
